theory Spec2Isabelle
  imports Main "HOL-Library.Word" "HOL-Library.Multiset"
begin

unbundle bit_operations_syntax

section \<open>Data model (minefield.cpp, lines 10-66)\<close>

text \<open>
  \<^verbatim>\<open>unsigned int\<close> and \<^verbatim>\<open>int\<close> are 32-bit machine integers. Both are modelled as
  \<open>32 word\<close>: arithmetic wraps, \<open>\<le>\<close> and \<open><\<close> on words are the unsigned comparisons, and
  \<open>sint\<close> reads a word as the two's-complement \<^verbatim>\<open>int\<close>. A comparison of an
  \<^verbatim>\<open>unsigned int\<close> with an \<^verbatim>\<open>int\<close> converts the \<^verbatim>\<open>int\<close> to unsigned, which leaves
  the word as it is. \<^verbatim>\<open>size_t\<close> values are vector sizes and are modelled as \<open>nat\<close>.
\<close>

type_synonym u32 = "32 word"

record Position =
  column :: u32
  row :: u32

record Player =
  isHuman :: bool
  name :: string
  remainingMines :: u32
  currentMines :: "Position list"
  currentGuesses :: "Position list"

text \<open>
  \<^verbatim>\<open>enum class CellStatusFlags : unsigned int\<close> is used as a bit set: values that are
  no enumerator arise from \<^verbatim>\<open>|\<close>, so a cell status is the underlying word.
\<close>

type_synonym CellStatusFlags = u32

definition FlagNone :: CellStatusFlags where "FlagNone = 0x00"
definition Disabled :: CellStatusFlags where "Disabled = 0x01"
definition HasMine :: CellStatusFlags where "HasMine = 0x02"
definition WasGuessed :: CellStatusFlags where "WasGuessed = 0x04"
definition SelfDetonated :: CellStatusFlags where "SelfDetonated = 0x08"
definition HadCollision :: CellStatusFlags where "HadCollision = 0x10"

definition hasFlag :: "CellStatusFlags \<Rightarrow> CellStatusFlags \<Rightarrow> bool" where
  "hasFlag var flag =
     (if flag = FlagNone then var = FlagNone else (var AND flag) = flag)"

section \<open>Board (lines 68-149)\<close>

record Board =
  width :: u32
  height :: u32
  grid :: "CellStatusFlags list list"

definition kMaxSize :: u32 where "kMaxSize = 4"
definition kMinSize :: u32 where "kMinSize = 2"
definition kMaxMines :: u32 where "kMaxMines = 5"
definition kMinMines :: u32 where "kMinMines = 1"

text \<open>The constructor \<^verbatim>\<open>Board::Board(w, h)\<close>.\<close>

definition Board_init :: "u32 \<Rightarrow> u32 \<Rightarrow> Board" where
  "Board_init w h =
     (let width' = (if w \<ge> kMinSize \<and> w \<le> kMaxSize then w else kMinSize);
          height' = (if h \<ge> kMinSize \<and> h \<le> kMaxSize then h else kMinSize)
      in \<lparr>width = width', height = height',
          grid = replicate (unat width') (replicate (unat height') FlagNone)\<rparr>)"

definition getWidth :: "Board \<Rightarrow> u32" where
  "getWidth b = width b"

definition getHeight :: "Board \<Rightarrow> u32" where
  "getHeight b = height b"

text \<open>
  The fields of the class are private and every board is made by the constructor, so
  every board the program holds has dimensions in \<open>[2,4]\<close> and a grid of that shape.
\<close>

definition Board_inv :: "Board \<Rightarrow> bool" where
  "Board_inv b =
     (kMinSize \<le> width b \<and> width b \<le> kMaxSize \<and>
      kMinSize \<le> height b \<and> height b \<le> kMaxSize \<and>
      length (grid b) = unat (width b) \<and>
      list_all (\<lambda>col. length col = unat (height b)) (grid b))"

text \<open>\<^verbatim>\<open>std::vector::at\<close> throws \<^verbatim>\<open>std::out_of_range\<close> for an index past the end.\<close>

datatype error = OutOfRange

definition vector_at :: "'a list \<Rightarrow> u32 \<Rightarrow> error + 'a" where
  "vector_at xs i = (if unat i < length xs then Inr (xs ! unat i) else Inl OutOfRange)"

definition isValidPosition :: "Board \<Rightarrow> u32 \<Rightarrow> u32 \<Rightarrow> bool" where
  "isValidPosition b col rw = (col < width b \<and> rw < height b)"

definition isDisabled :: "Board \<Rightarrow> u32 \<Rightarrow> u32 \<Rightarrow> error + bool" where
  "isDisabled b col rw =
     (if \<not> isValidPosition b col rw then Inr False
      else (case vector_at (grid b) col of
              Inl e \<Rightarrow> Inl e
            | Inr colv \<Rightarrow> (case vector_at colv rw of
                             Inl e \<Rightarrow> Inl e
                           | Inr status \<Rightarrow> Inr (hasFlag status Disabled))))"

definition isValidMineCount :: "Board \<Rightarrow> u32 \<Rightarrow> bool" where
  "isValidMineCount b cnt = (cnt \<ge> kMinMines \<and> cnt \<le> kMaxMines)"

definition getCellStatus :: "Board \<Rightarrow> u32 \<Rightarrow> u32 \<Rightarrow> error + CellStatusFlags" where
  "getCellStatus b col rw =
     (if \<not> isValidPosition b col rw then Inr FlagNone
      else (case vector_at (grid b) col of
              Inl e \<Rightarrow> Inl e
            | Inr colv \<Rightarrow> vector_at colv rw))"

text \<open>
  \<^verbatim>\<open>grid[col][row]\<close>, the unchecked element that \<^verbatim>\<open>safeCellAccess\<close> hands to the
  callback. The callback assigns to the reference: it is a function from the old status
  to the new one.
\<close>

definition cellAt :: "Board \<Rightarrow> u32 \<Rightarrow> u32 \<Rightarrow> CellStatusFlags" where
  "cellAt b col rw = grid b ! unat col ! unat rw"

definition safeCellAccess ::
  "Board \<Rightarrow> u32 \<Rightarrow> u32 \<Rightarrow> (CellStatusFlags \<Rightarrow> CellStatusFlags) \<Rightarrow> Board" where
  "safeCellAccess b col rw onValidCell =
     (if isValidPosition b col rw
      then b\<lparr>grid := (grid b)[unat col :=
                        (grid b ! unat col)[unat rw := onValidCell (cellAt b col rw)]]\<rparr>
      else b)"

section \<open>The callbacks passed to safeCellAccess\<close>

text \<open>Lines 250-255, in \<^verbatim>\<open>removeCollidingMines\<close>.\<close>

definition markCollision :: "CellStatusFlags \<Rightarrow> CellStatusFlags" where
  "markCollision status = ((status OR HadCollision) OR Disabled) AND NOT HasMine"

text \<open>Line 382, in \<^verbatim>\<open>collectPositions\<close>.\<close>

definition markMine :: "CellStatusFlags \<Rightarrow> CellStatusFlags" where
  "markMine status = status OR HasMine"

text \<open>Line 441, in \<^verbatim>\<open>clearMines\<close>.\<close>

definition unmarkMine :: "CellStatusFlags \<Rightarrow> CellStatusFlags" where
  "unmarkMine status = status AND NOT HasMine"

text \<open>Lines 483-488, in \<^verbatim>\<open>resolveSelfDetonation\<close>.\<close>

definition markSelfDetonated :: "CellStatusFlags \<Rightarrow> CellStatusFlags" where
  "markSelfDetonated status = ((status OR Disabled) OR SelfDetonated) AND NOT HasMine"

text \<open>Line 504, in \<^verbatim>\<open>disableGuessedPositions\<close>.\<close>

definition markGuessed :: "CellStatusFlags \<Rightarrow> CellStatusFlags" where
  "markGuessed status = status OR (Disabled OR WasGuessed)"

section \<open>utils (lines 197-345)\<close>

definition samePosition :: "Position \<Rightarrow> Position \<Rightarrow> bool" where
  "samePosition a b = ((column a = column b) \<and> (row a = row b))"

text \<open>
  The loops that wait for the keyboard or for \<^verbatim>\<open>rand()\<close> are run on the finite list of
  inputs supplied so far. \<open>StillRunning\<close> is the loop that has used up all of them without
  leaving; a loop that is \<open>StillRunning\<close> on every list of inputs never returns.
  \<open>Threw\<close> is an exception leaving the function.
\<close>

datatype 'a outcome = Returned 'a | Threw error | StillRunning

text \<open>
  One entry of the keyboard input is what \<^verbatim>\<open>std::cin >> col >> row\<close> extracts:
  \<open>None\<close> when the extraction fails, the two numbers otherwise. One entry of the random
  source is a value of \<^verbatim>\<open>rand()\<close>, as converted to \<^verbatim>\<open>unsigned int\<close> by \<^verbatim>\<open>%\<close>.
\<close>

record Inputs =
  keyboard :: "(u32 \<times> u32) option list"
  rands :: "u32 list"

text \<open>
  \<^verbatim>\<open>generateRandomPosition\<close>: two values of \<^verbatim>\<open>rand()\<close> each time round the loop.
  (\<^verbatim>\<open>%\<close> by a zero width is undefined in C++; no constructed board has one.)
\<close>

fun generateRandomPosition :: "Board \<Rightarrow> u32 list \<Rightarrow> (Position \<times> u32 list) outcome" where
  "generateRandomPosition board (r1 # r2 # rest) =
     (let col = r1 mod getWidth board; rw = r2 mod getHeight board
      in (case isDisabled board col rw of
            Inl e \<Rightarrow> Threw e
          | Inr d \<Rightarrow> if \<not> d then Returned (\<lparr>column = col, row = rw\<rparr>, rest)
                    else generateRandomPosition board rest))"
| "generateRandomPosition board rs = StillRunning"

text \<open>The inner search loop with \<^verbatim>\<open>break\<close>, as it occurs at lines 244, 274, 451 and 471.\<close>

fun matchesAny :: "Position \<Rightarrow> Position list \<Rightarrow> bool" where
  "matchesAny mine [] = False"
| "matchesAny mine (other # others) =
     (if samePosition mine other then True else matchesAny mine others)"

text \<open>
  \<^verbatim>\<open>removeCollidingMines\<close>: the loop over \<open>ownMines\<close>, with the vectors \<open>result\<close> and
  \<open>collisions\<close> and the board as they stand.
\<close>

fun removeCollidingMines_loop ::
  "Position list \<Rightarrow> Position list \<Rightarrow> Position list \<Rightarrow> Position list \<Rightarrow> Board
     \<Rightarrow> Position list \<times> Position list \<times> Board" where
  "removeCollidingMines_loop [] opponentMines result collisions board =
     (result, collisions, board)"
| "removeCollidingMines_loop (mine # ownMines) opponentMines result collisions board =
     (if matchesAny mine opponentMines
      then removeCollidingMines_loop ownMines opponentMines result (collisions @ [mine])
             (safeCellAccess board (column mine) (row mine) markCollision)
      else removeCollidingMines_loop ownMines opponentMines (result @ [mine]) collisions board)"

definition removeCollidingMines ::
  "Position list \<Rightarrow> Position list \<Rightarrow> Position list \<Rightarrow> Board
     \<Rightarrow> Position list \<times> Position list \<times> Board" where
  "removeCollidingMines ownMines opponentMines collisions board =
     removeCollidingMines_loop ownMines opponentMines [] collisions board"

fun keepNonCollidingMines_loop ::
  "Position list \<Rightarrow> Position list \<Rightarrow> Position list \<Rightarrow> Position list" where
  "keepNonCollidingMines_loop [] opponentMines result = result"
| "keepNonCollidingMines_loop (mine # ownMines) opponentMines result =
     (if matchesAny mine opponentMines
      then keepNonCollidingMines_loop ownMines opponentMines result
      else keepNonCollidingMines_loop ownMines opponentMines (result @ [mine]))"

definition keepNonCollidingMines :: "Position list \<Rightarrow> Position list \<Rightarrow> Position list" where
  "keepNonCollidingMines ownMines opponentMines =
     keepNonCollidingMines_loop ownMines opponentMines []"

text \<open>
  \<^verbatim>\<open>requestPosition\<close>: \<^verbatim>\<open>col--\<close> and \<^verbatim>\<open>row--\<close> wrap at 0; \<^verbatim>\<open>||\<close> asks
  \<^verbatim>\<open>isDisabled\<close> only for a valid position.
\<close>

fun requestPosition ::
  "Board \<Rightarrow> (u32 \<times> u32) option list \<Rightarrow> (Position \<times> (u32 \<times> u32) option list) outcome" where
  "requestPosition board [] = StillRunning"
| "requestPosition board (None # rest) = requestPosition board rest"
| "requestPosition board (Some (c, r) # rest) =
     (let col = c - 1; rw = r - 1
      in if \<not> isValidPosition board col rw then requestPosition board rest
         else (case isDisabled board col rw of
                 Inl e \<Rightarrow> Threw e
               | Inr d \<Rightarrow> if d then requestPosition board rest
                         else Returned (\<lparr>column = col, row = rw\<rparr>, rest)))"

section \<open>game (lines 347-570)\<close>

text \<open>
  \<^verbatim>\<open>static_cast<size_t>(count)\<close> of an \<^verbatim>\<open>int\<close>: a negative count becomes a value
  just under \<open>2 ^ 64\<close>.
\<close>

definition size_t_of_int :: "u32 \<Rightarrow> nat" where
  "size_t_of_int n = (if 0 \<le> sint n then nat (sint n) else nat (2 ^ 64 + sint n))"

text \<open>Lines 367-375: the candidate comes from the keyboard or from \<^verbatim>\<open>rand()\<close>.\<close>

definition nextPosition :: "Player \<Rightarrow> Board \<Rightarrow> Inputs \<Rightarrow> (Position \<times> Inputs) outcome" where
  "nextPosition player board io =
     (if isHuman player
      then (case requestPosition board (keyboard io) of
              Returned (pos, rest) \<Rightarrow> Returned (pos, io\<lparr>keyboard := rest\<rparr>)
            | Threw e \<Rightarrow> Threw e
            | StillRunning \<Rightarrow> StillRunning)
      else (case generateRandomPosition board (rands io) of
              Returned (pos, rest) \<Rightarrow> Returned (pos, io\<lparr>rands := rest\<rparr>)
            | Threw e \<Rightarrow> Threw e
            | StillRunning \<Rightarrow> StillRunning))"

text \<open>The \<^verbatim>\<open>while\<close> loop of \<^verbatim>\<open>collectPositions\<close>, lines 365-396.\<close>

function collectPositions_loop ::
  "Player \<Rightarrow> u32 \<Rightarrow> Board \<Rightarrow> Position list \<Rightarrow> bool \<Rightarrow> Inputs
     \<Rightarrow> (Position list \<times> Board \<times> Inputs) outcome" where
  "collectPositions_loop player cnt board targetList markMinesOnBoard io =
     (if length targetList < size_t_of_int cnt
      then (case nextPosition player board io of
              Threw e \<Rightarrow> Threw e
            | StillRunning \<Rightarrow> StillRunning
            | Returned (pos, io') \<Rightarrow>
                (let repeated = list_ex (\<lambda>p. samePosition p pos) targetList
                 in if \<not> repeated
                    then collectPositions_loop player cnt
                           (if markMinesOnBoard
                            then safeCellAccess board (column pos) (row pos) markMine
                            else board)
                           (targetList @ [pos]) markMinesOnBoard io'
                    else collectPositions_loop player cnt board targetList
                           markMinesOnBoard io'))
      else Returned (targetList, board, io))"
  by pat_completeness auto
termination
proof -
  have req: "requestPosition board inp = Returned (pos, rest) \<Longrightarrow> length rest < length inp"
    for board inp pos rest
    by (induction board inp rule: requestPosition.induct)
       (fastforce simp: Let_def split: if_splits sum.splits)+
  have gen: "generateRandomPosition board rs = Returned (pos, rest) \<Longrightarrow> length rest < length rs"
    for board rs pos rest
    by (induction board rs rule: generateRandomPosition.induct)
       (fastforce simp: Let_def split: if_splits sum.splits)+
  have nxt: "nextPosition player board io = Returned (pos, io')
      \<Longrightarrow> length (keyboard io') + length (rands io') < length (keyboard io) + length (rands io)"
    for player board io pos io'
    by (auto simp: nextPosition_def split: if_splits outcome.splits dest: req gen)
  show ?thesis
    by (relation "measure (\<lambda>(player, cnt, board, targetList, mark, io).
                     length (keyboard io) + length (rands io))")
       (auto dest: nxt)
qed


text \<open>\<^verbatim>\<open>collectPositions\<close> clears the target list and runs the loop.\<close>

definition collectPositions ::
  "Player \<Rightarrow> u32 \<Rightarrow> Board \<Rightarrow> bool \<Rightarrow> Inputs \<Rightarrow> (Position list \<times> Board \<times> Inputs) outcome" where
  "collectPositions player cnt board markMinesOnBoard io =
     collectPositions_loop player cnt board [] markMinesOnBoard io"

definition placeMines ::
  "Player \<Rightarrow> u32 \<Rightarrow> Board \<Rightarrow> Inputs \<Rightarrow> (Player \<times> Board \<times> Inputs) outcome" where
  "placeMines player quantity board io =
     (case collectPositions player quantity board True io of
        Returned (mines, board', io') \<Rightarrow> Returned (player\<lparr>currentMines := mines\<rparr>, board', io')
      | Threw e \<Rightarrow> Threw e
      | StillRunning \<Rightarrow> StillRunning)"

definition collectGuessesFromPlayer ::
  "Player \<Rightarrow> u32 \<Rightarrow> Board \<Rightarrow> Inputs \<Rightarrow> (Player \<times> Board \<times> Inputs) outcome" where
  "collectGuessesFromPlayer player opponentMines board io =
     (case collectPositions player opponentMines board False io of
        Returned (guesses, board', io') \<Rightarrow>
          Returned (player\<lparr>currentGuesses := guesses\<rparr>, board', io')
      | Threw e \<Rightarrow> Threw e
      | StillRunning \<Rightarrow> StillRunning)"

text \<open>
  \<^verbatim>\<open>int removedByP1 = p1.currentMines.size() - newMines1.size()\<close>: the difference of
  two \<^verbatim>\<open>size_t\<close> values, narrowed to 32 bits.
\<close>

definition detectAndRemoveCollisions ::
  "Player \<Rightarrow> Player \<Rightarrow> Board \<Rightarrow> Player \<times> Player \<times> Board \<times> Position list" where
  "detectAndRemoveCollisions p1 p2 board =
     (case removeCollidingMines (currentMines p1) (currentMines p2) [] board of
        (newMines1, collisions, board') \<Rightarrow>
          (let newMines2 = keepNonCollidingMines (currentMines p2) (currentMines p1);
               removedByP1 = (word_of_int (int (length (currentMines p1)) - int (length newMines1)) :: u32);
               removedByP2 = (word_of_int (int (length (currentMines p2)) - int (length newMines2)) :: u32);
               p1a = p1\<lparr>currentMines := newMines1\<rparr>;
               p2a = p2\<lparr>currentMines := newMines2\<rparr>;
               p1b = p1a\<lparr>remainingMines :=
                        (if remainingMines p1a \<ge> removedByP1
                         then remainingMines p1a - removedByP1 else 0)\<rparr>;
               p2b = p2a\<lparr>remainingMines :=
                        (if remainingMines p2a \<ge> removedByP2
                         then remainingMines p2a - removedByP2 else 0)\<rparr>
           in (p1b, p2b, board', collisions)))"

text \<open>The two nested \<^verbatim>\<open>for\<close> loops of \<^verbatim>\<open>clearMines\<close> over columns and rows.\<close>

definition clearMines :: "Board \<Rightarrow> Board" where
  "clearMines board =
     fold (\<lambda>c b. fold (\<lambda>r b'. safeCellAccess b' (of_nat c) (of_nat r) unmarkMine)
                    [0..<unat (getHeight b)] b)
          [0..<unat (getWidth board)] board"

text \<open>
  The counters \<^verbatim>\<open>int hits\<close> and \<^verbatim>\<open>int selfHits\<close> count loop iterations upwards
  from 0. In the model \<^verbatim>\<open>++\<close> wraps at \<open>2 ^ 32\<close>; in C++ the overflow of an
  \<^verbatim>\<open>int\<close> is undefined, and it takes a list of more than \<open>2 ^ 31\<close> positions.
\<close>

fun countHits_loop :: "Position list \<Rightarrow> Position list \<Rightarrow> u32 \<Rightarrow> u32" where
  "countHits_loop mines [] hits = hits"
| "countHits_loop mines (guess # attacks) hits =
     countHits_loop mines attacks (if matchesAny guess mines then hits + 1 else hits)"

definition countHits :: "Player \<Rightarrow> Position list \<Rightarrow> u32" where
  "countHits defender attacks = countHits_loop (currentMines defender) attacks 0"

fun resolveSelfDetonation_loop ::
  "Position list \<Rightarrow> Position list \<Rightarrow> u32 \<Rightarrow> Position list \<Rightarrow> Board
     \<Rightarrow> u32 \<times> Position list \<times> Board" where
  "resolveSelfDetonation_loop [] guesses selfHits updatedMines board =
     (selfHits, updatedMines, board)"
| "resolveSelfDetonation_loop (mine # mines) guesses selfHits updatedMines board =
     (let destroyed = matchesAny mine guesses
      in if destroyed
         then resolveSelfDetonation_loop mines guesses (selfHits + 1) updatedMines
                (safeCellAccess board (column mine) (row mine) markSelfDetonated)
         else resolveSelfDetonation_loop mines guesses selfHits (updatedMines @ [mine]) board)"

definition resolveSelfDetonation :: "Player \<Rightarrow> Board \<Rightarrow> u32 \<times> Player \<times> Board" where
  "resolveSelfDetonation player board =
     (case resolveSelfDetonation_loop (currentMines player) (currentGuesses player) 0 [] board of
        (selfHits, updatedMines, board') \<Rightarrow>
          (selfHits, player\<lparr>currentMines := updatedMines\<rparr>, board'))"

fun disableGuessedPositions :: "Position list \<Rightarrow> Board \<Rightarrow> Board" where
  "disableGuessedPositions [] board = board"
| "disableGuessedPositions (guess # guesses) board =
     disableGuessedPositions guesses
       (safeCellAccess board (column guess) (row guess) markGuessed)"

text \<open>
  \<^verbatim>\<open>checkGameEnd\<close> prints who won and returns whether the game is over; the model
  returns both. On \<^verbatim>\<open>unsigned int\<close>, \<^verbatim>\<open><= 0\<close> is the unsigned comparison.
\<close>

datatype announcement = DrawNoMines | WinTheGame string

definition checkGameEnd :: "Player \<Rightarrow> Player \<Rightarrow> bool \<times> announcement option" where
  "checkGameEnd p1 p2 =
     (if remainingMines p1 \<le> 0 \<and> remainingMines p2 \<le> 0 then (True, Some DrawNoMines)
      else if remainingMines p1 \<le> 0 then (True, Some (WinTheGame (name p2)))
      else if remainingMines p2 \<le> 0 then (True, Some (WinTheGame (name p1)))
      else (False, None))"

text \<open>
  The body of the loop of \<^verbatim>\<open>runMainLoop\<close> in its parts: lines 546-550 (hits),
  lines 552-556 (self-detonation), lines 546-559 (both, then the disabling of the guessed
  cells), and lines 538-559 (the whole round).
\<close>

definition resolveHits :: "Player \<Rightarrow> Player \<Rightarrow> Player \<times> Player" where
  "resolveHits p1 p2 =
     (let hits1 = countHits p2 (currentGuesses p1);
          hits2 = countHits p1 (currentGuesses p2);
          p2a = p2\<lparr>remainingMines :=
                   (if remainingMines p2 \<ge> hits1 then remainingMines p2 - hits1 else 0)\<rparr>;
          p1a = p1\<lparr>remainingMines :=
                   (if remainingMines p1 \<ge> hits2 then remainingMines p1 - hits2 else 0)\<rparr>
      in (p1a, p2a))"

definition resolveSelfDetonations :: "Player \<Rightarrow> Player \<Rightarrow> Board \<Rightarrow> Player \<times> Player \<times> Board" where
  "resolveSelfDetonations p1 p2 board =
     (case resolveSelfDetonation p1 board of
        (selfHits1, p1a, board1) \<Rightarrow>
          (case resolveSelfDetonation p2 board1 of
             (selfHits2, p2a, board2) \<Rightarrow>
               (p1a\<lparr>remainingMines :=
                      (if remainingMines p1a \<ge> selfHits1
                       then remainingMines p1a - selfHits1 else 0)\<rparr>,
                p2a\<lparr>remainingMines :=
                      (if remainingMines p2a \<ge> selfHits2
                       then remainingMines p2a - selfHits2 else 0)\<rparr>,
                board2)))"

definition resolveRound :: "Player \<Rightarrow> Player \<Rightarrow> Board \<Rightarrow> Player \<times> Player \<times> Board" where
  "resolveRound p1 p2 board =
     (case resolveHits p1 p2 of
        (p1a, p2a) \<Rightarrow>
          (case resolveSelfDetonations p1a p2a board of
             (p1b, p2b, board1) \<Rightarrow>
               (p1b, p2b,
                disableGuessedPositions (currentGuesses p2b)
                  (disableGuessedPositions (currentGuesses p1b) board1))))"

definition playRound ::
  "Player \<Rightarrow> Player \<Rightarrow> Board \<Rightarrow> Inputs \<Rightarrow> (Player \<times> Player \<times> Board \<times> Inputs) outcome" where
  "playRound p1 p2 board io =
     (case placeMines p1 (remainingMines p1) (clearMines board) io of
        Threw e \<Rightarrow> Threw e
      | StillRunning \<Rightarrow> StillRunning
      | Returned (p1a, board1, io1) \<Rightarrow>
     (case placeMines p2 (remainingMines p2) board1 io1 of
        Threw e \<Rightarrow> Threw e
      | StillRunning \<Rightarrow> StillRunning
      | Returned (p2a, board2, io2) \<Rightarrow>
     (case detectAndRemoveCollisions p1a p2a board2 of
        (p1b, p2b, board3, collisions) \<Rightarrow>
     (case collectGuessesFromPlayer p1b (remainingMines p2b) board3 io2 of
        Threw e \<Rightarrow> Threw e
      | StillRunning \<Rightarrow> StillRunning
      | Returned (p1c, board4, io3) \<Rightarrow>
     (case collectGuessesFromPlayer p2b (remainingMines p1c) board4 io3 of
        Threw e \<Rightarrow> Threw e
      | StillRunning \<Rightarrow> StillRunning
      | Returned (p2c, board5, io4) \<Rightarrow>
     (case resolveRound p1c p2c board5 of
        (p1d, p2d, board6) \<Rightarrow> Returned (p1d, p2d, board6, io4)))))))"

text \<open>
  The \<^verbatim>\<open>while (!finished)\<close> loop, run for at most the given number of rounds:
  \<open>StillRunning\<close> when it has not left by then.
\<close>

fun runMainLoop ::
  "nat \<Rightarrow> Player \<Rightarrow> Player \<Rightarrow> Board \<Rightarrow> Inputs \<Rightarrow> (Player \<times> Player \<times> Board \<times> Inputs) outcome" where
  "runMainLoop 0 p1 p2 board io = StillRunning"
| "runMainLoop (Suc rounds) p1 p2 board io =
     (case playRound p1 p2 board io of
        Threw e \<Rightarrow> Threw e
      | StillRunning \<Rightarrow> StillRunning
      | Returned (p1a, p2a, board1, io1) \<Rightarrow>
          (let finished = fst (checkGameEnd p1a p2a)
           in if finished then Returned (p1a, p2a, board1, io1)
              else runMainLoop rounds p1a p2a board1 io1))"

section \<open>Predicates used in the properties\<close>

text \<open>
  A callback keeps every flag other than \<open>HasMine\<close> that the status had, and a later
  board \<open>b'\<close> of the same game keeps the shape of \<open>b\<close> and, in every cell, every flag
  other than \<open>HasMine\<close> that the cell had in \<open>b\<close>.
\<close>

definition keepsOtherFlags :: "(CellStatusFlags \<Rightarrow> CellStatusFlags) \<Rightarrow> bool" where
  "keepsOtherFlags f = (\<forall>s. (s AND NOT HasMine) AND f s = s AND NOT HasMine)"


definition persists :: "Board \<Rightarrow> Board \<Rightarrow> bool" where
  "persists b b' =
     (Board_inv b' \<and> width b' = width b \<and> height b' = height b \<and>
      (\<forall>c r. isValidPosition b c r \<longrightarrow>
         (cellAt b c r AND NOT HasMine) AND cellAt b' c r = cellAt b c r AND NOT HasMine))"

text \<open>
  What persistence of the flags says through the public accessor: wherever
  \<^verbatim>\<open>getCellStatus\<close> returned a status before, it returns one afterwards, with every one
  of the four permanent flags that was set still set, and with every bit other than
  \<open>HasMine\<close> that was set still set.
\<close>

definition flagsKept :: "Board \<Rightarrow> Board \<Rightarrow> bool" where
  "flagsKept b b' =
     (\<forall>c r s. getCellStatus b c r = Inr s \<longrightarrow>
        (\<exists>s'. getCellStatus b' c r = Inr s' \<and>
              (hasFlag s Disabled \<longrightarrow> hasFlag s' Disabled) \<and>
              (hasFlag s WasGuessed \<longrightarrow> hasFlag s' WasGuessed) \<and>
              (hasFlag s SelfDetonated \<longrightarrow> hasFlag s' SelfDetonated) \<and>
              (hasFlag s HadCollision \<longrightarrow> hasFlag s' HadCollision) \<and>
              (s AND NOT HasMine) AND s' = s AND NOT HasMine))"

text \<open>
  The cells of a board column by column, the cells among them that are not disabled (the
  only ones \<^verbatim>\<open>requestPosition\<close> and \<^verbatim>\<open>generateRandomPosition\<close> return), and the
  cells that carry \<open>HasMine\<close>.
\<close>

definition boardPositions :: "Board \<Rightarrow> Position list" where
  "boardPositions b =
     concat (map (\<lambda>c. map (\<lambda>r. \<lparr>column = of_nat c, row = of_nat r\<rparr>)
                         [0..<unat (height b)])
                 [0..<unat (width b)])"

definition freeCells :: "Board \<Rightarrow> Position list" where
  "freeCells b =
     filter (\<lambda>p. isDisabled b (column p) (row p) = Inr False) (boardPositions b)"

definition mineLayout :: "Board \<Rightarrow> Position list" where
  "mineLayout b =
     filter (\<lambda>p. hasFlag (cellAt b (column p) (row p)) HasMine) (boardPositions b)"

text \<open>
  The board after \<open>HasMine\<close> has been set, by the callback of line 382 through
  \<^verbatim>\<open>safeCellAccess\<close>, on each position of a list in turn: what \<^verbatim>\<open>collectPositions\<close>
  with \<^verbatim>\<open>markMinesOnBoard\<close> does to the board for the positions it accepts.
\<close>

fun setHasMine :: "Position list \<Rightarrow> Board \<Rightarrow> Board" where
  "setHasMine [] board = board"
| "setHasMine (p # ps) board =
     setHasMine ps (safeCellAccess board (column p) (row p) markMine)"

section \<open>Properties of the board\<close>

lemmas flag_defs = FlagNone_def Disabled_def HasMine_def WasGuessed_def SelfDetonated_def
  HadCollision_def

lemmas k_defs = kMinSize_def kMaxSize_def kMinMines_def kMaxMines_def

lemma Board_init_inv: "Board_inv (Board_init w h)"
  by (simp add: Board_inv_def Board_init_def Let_def k_defs list_all_iff)

lemma safeCellAccess_width [simp]: "width (safeCellAccess b c r f) = width b"
  by (simp add: safeCellAccess_def)

lemma safeCellAccess_height [simp]: "height (safeCellAccess b c r f) = height b"
  by (simp add: safeCellAccess_def)

lemma safeCellAccess_valid [simp]:
  "isValidPosition (safeCellAccess b c r f) c' r' = isValidPosition b c' r'"
  by (simp add: isValidPosition_def)

lemma safeCellAccess_inv: "Board_inv b \<Longrightarrow> Board_inv (safeCellAccess b c r f)"
  unfolding Board_inv_def safeCellAccess_def list_all_iff
  by (auto dest!: set_update_subset_insert [THEN subsetD] simp: isValidPosition_def word_less_nat_alt)

lemma cellAt_safeCellAccess:
  assumes "Board_inv b" "isValidPosition b c' r'"
  shows "cellAt (safeCellAccess b c r f) c' r' =
           (if c' = c \<and> r' = r then f (cellAt b c r) else cellAt b c' r')"
proof -
  from assms have c': "unat c' < length (grid b)"
    and r': "unat r' < length (grid b ! unat c')"
    by (auto simp: Board_inv_def isValidPosition_def word_less_nat_alt list_all_length)
  show ?thesis
  proof (cases "isValidPosition b c r")
    case False
    with assms show ?thesis by (auto simp: safeCellAccess_def)
  next
    case True
    with assms have c: "unat c < length (grid b)"
      and r: "unat r < length (grid b ! unat c)"
      by (auto simp: Board_inv_def isValidPosition_def word_less_nat_alt list_all_length)
    show ?thesis
      using True c r c' r'
      by (auto simp: safeCellAccess_def cellAt_def nth_list_update word_unat_eq_iff)
  qed
qed

lemma getCellStatus_valid:
  "Board_inv b \<Longrightarrow> isValidPosition b c r \<Longrightarrow> getCellStatus b c r = Inr (cellAt b c r)"
  by (auto simp: getCellStatus_def vector_at_def cellAt_def Board_inv_def isValidPosition_def
      word_less_nat_alt list_all_length)

lemma isDisabled_valid:
  "Board_inv b \<Longrightarrow> isValidPosition b c r
     \<Longrightarrow> isDisabled b c r = Inr (hasFlag (cellAt b c r) Disabled)"
  by (auto simp: isDisabled_def vector_at_def cellAt_def Board_inv_def isValidPosition_def
      word_less_nat_alt list_all_length)

lemma isDisabled_total:
  "Board_inv b \<Longrightarrow> isDisabled b c r = Inr (isValidPosition b c r \<and> hasFlag (cellAt b c r) Disabled)"
  by (cases "isValidPosition b c r") (auto simp: isDisabled_valid, simp add: isDisabled_def)


lemma flags_kept_trans:
  fixes a b c h :: "'a::len word"
  assumes "(a AND NOT h) AND b = a AND NOT h" "(b AND NOT h) AND c = b AND NOT h"
  shows "(a AND NOT h) AND c = a AND NOT h"
proof (rule bit_eqI)
  fix n
  assume "possible_bit TYPE('a word) n"
  from assms(1) have 1: "bit ((a AND NOT h) AND b) n = bit (a AND NOT h) n" by simp
  from assms(2) have 2: "bit ((b AND NOT h) AND c) n = bit (b AND NOT h) n" by simp
  from 1 2 show "bit ((a AND NOT h) AND c) n = bit (a AND NOT h) n"
    by (auto simp: bit_simps)
qed

lemma flags_kept_refl [simp]: "(a AND NOT h) AND a = a AND NOT h"
  for a h :: "'a::len word"
  by (auto intro!: bit_eqI simp: bit_simps)

lemma persists_refl: "Board_inv b \<Longrightarrow> persists b b"
  by (simp add: persists_def)

lemma persists_trans:
  assumes "persists a b" "persists b c"
  shows "persists a c"
proof -
  have "(cellAt a col rw AND NOT HasMine) AND cellAt c col rw = cellAt a col rw AND NOT HasMine"
    if "isValidPosition a col rw" for col rw
  proof -
    from that assms(1) have "isValidPosition b col rw"
      by (simp add: persists_def isValidPosition_def)
    with assms(2)
    have "(cellAt b col rw AND NOT HasMine) AND cellAt c col rw = cellAt b col rw AND NOT HasMine"
      by (simp add: persists_def)
    moreover from that assms(1)
    have "(cellAt a col rw AND NOT HasMine) AND cellAt b col rw = cellAt a col rw AND NOT HasMine"
      by (simp add: persists_def)
    ultimately show ?thesis by (rule flags_kept_trans [rotated])
  qed
  with assms show ?thesis by (simp add: persists_def)
qed

lemma persists_inv: "persists b b' \<Longrightarrow> Board_inv b'"
  by (simp add: persists_def)

lemma persists_valid: "persists b b' \<Longrightarrow> isValidPosition b' c r = isValidPosition b c r"
  by (simp add: persists_def isValidPosition_def)

lemma keepsOtherFlags_callbacks:
  "keepsOtherFlags markCollision" "keepsOtherFlags markMine" "keepsOtherFlags unmarkMine"
  "keepsOtherFlags markSelfDetonated" "keepsOtherFlags markGuessed"
  unfolding keepsOtherFlags_def markCollision_def markMine_def unmarkMine_def
    markSelfDetonated_def markGuessed_def
  by (auto intro!: bit_eqI simp: bit_simps)

lemma safeCellAccess_persists:
  assumes "Board_inv b" "keepsOtherFlags f"
  shows "persists b (safeCellAccess b c r f)"
  using assms
  by (auto simp: persists_def safeCellAccess_inv cellAt_safeCellAccess keepsOtherFlags_def)


declare collectPositions_loop.simps [simp del]

lemma fold_persists:
  assumes step: "\<And>x b. Board_inv b \<Longrightarrow> persists b (f x b)"
  shows "Board_inv b \<Longrightarrow> persists b (fold f xs b)"
proof (induction xs arbitrary: b)
  case Nil
  then show ?case by (simp add: persists_refl)
next
  case (Cons x xs)
  have 1: "persists b (f x b)" using Cons.prems by (rule step)
  then have "persists (f x b) (fold f xs (f x b))"
    by (intro Cons.IH persists_inv)
  with 1 show ?case by (auto intro: persists_trans)
qed

lemma clearMines_persists: "Board_inv b \<Longrightarrow> persists b (clearMines b)"
  unfolding clearMines_def
  by (intro fold_persists safeCellAccess_persists keepsOtherFlags_callbacks)

lemma removeCollidingMines_loop_persists:
  "Board_inv b \<Longrightarrow> persists b (snd (snd (removeCollidingMines_loop own opp res cols b)))"
proof (induction own arbitrary: res cols b)
  case Nil
  then show ?case by (simp add: persists_refl)
next
  case (Cons mine own)
  show ?case
  proof (cases "matchesAny mine opp")
    case True
    let ?b1 = "safeCellAccess b (column mine) (row mine) markCollision"
    have 1: "persists b ?b1"
      using Cons.prems by (intro safeCellAccess_persists keepsOtherFlags_callbacks)
    then have "persists ?b1 (snd (snd (removeCollidingMines_loop own opp res (cols @ [mine]) ?b1)))"
      by (intro Cons.IH persists_inv)
    with 1 True show ?thesis by (auto intro: persists_trans)
  next
    case False
    with Cons show ?thesis by simp
  qed
qed

lemma resolveSelfDetonation_loop_persists:
  "Board_inv b \<Longrightarrow> persists b (snd (snd (resolveSelfDetonation_loop mines gs n upd b)))"
proof (induction mines arbitrary: n upd b)
  case Nil
  then show ?case by (simp add: persists_refl)
next
  case (Cons mine mines)
  show ?case
  proof (cases "matchesAny mine gs")
    case True
    let ?b1 = "safeCellAccess b (column mine) (row mine) markSelfDetonated"
    have 1: "persists b ?b1"
      using Cons.prems by (intro safeCellAccess_persists keepsOtherFlags_callbacks)
    then have "persists ?b1 (snd (snd (resolveSelfDetonation_loop mines gs (n + 1) upd ?b1)))"
      by (intro Cons.IH persists_inv)
    with 1 True show ?thesis by (auto intro: persists_trans)
  next
    case False
    with Cons show ?thesis by simp
  qed
qed

lemma disableGuessedPositions_persists:
  "Board_inv b \<Longrightarrow> persists b (disableGuessedPositions gs b)"
proof (induction gs arbitrary: b)
  case Nil
  then show ?case by (simp add: persists_refl)
next
  case (Cons g gs)
  let ?b1 = "safeCellAccess b (column g) (row g) markGuessed"
  have 1: "persists b ?b1"
    using Cons.prems by (intro safeCellAccess_persists keepsOtherFlags_callbacks)
  then have "persists ?b1 (disableGuessedPositions gs ?b1)"
    by (intro Cons.IH persists_inv)
  with 1 show ?case by (auto intro: persists_trans)
qed

lemma collectPositions_loop_persists:
  "Board_inv b \<Longrightarrow> collectPositions_loop p cnt b t m io = Returned (t', b', io')
     \<Longrightarrow> persists b b'"
proof (induction p cnt b t m io rule: collectPositions_loop.induct)
  case (1 player cnt board targetList mark io)
  show ?case
  proof (cases "length targetList < size_t_of_int cnt")
    case False
    with "1.prems" show ?thesis
      by (simp add: collectPositions_loop.simps [of player cnt board] persists_refl)
  next
    case True
    with "1.prems"(2) obtain pos io1 where nx: "nextPosition player board io = Returned (pos, io1)"
      by (auto simp: collectPositions_loop.simps [of player cnt board] split: outcome.splits)
    show ?thesis
    proof (cases "list_ex (\<lambda>p. samePosition p pos) targetList")
      case rep: True
      with True nx "1.prems" "1.IH"(2) [OF True nx refl refl] show ?thesis
        by (simp add: collectPositions_loop.simps [of player cnt board targetList])
    next
      case rep: False
      let ?b1 = "if mark then safeCellAccess board (column pos) (row pos) markMine else board"
      have p1: "persists board ?b1"
        using "1.prems"(1)
        by (auto intro: safeCellAccess_persists keepsOtherFlags_callbacks persists_refl)
      from True nx rep "1.prems"(2)
      have "collectPositions_loop player cnt ?b1 (targetList @ [pos]) mark io1
              = Returned (t', b', io')"
        by (simp add: collectPositions_loop.simps [of player cnt board targetList])
      with "1.IH"(1) [OF True nx refl refl] rep p1 have "persists ?b1 b'"
        by (auto dest: persists_inv)
      with p1 show ?thesis by (rule persists_trans)
    qed
  qed
qed

lemma collectPositions_persists:
  "Board_inv b \<Longrightarrow> collectPositions p cnt b m io = Returned (t', b', io') \<Longrightarrow> persists b b'"
  unfolding collectPositions_def by (rule collectPositions_loop_persists)

lemma placeMines_persists:
  "Board_inv b \<Longrightarrow> placeMines p q b io = Returned (p', b', io') \<Longrightarrow> persists b b'"
  by (auto simp: placeMines_def split: outcome.splits dest: collectPositions_persists)

lemma collectGuessesFromPlayer_persists:
  "Board_inv b \<Longrightarrow> collectGuessesFromPlayer p q b io = Returned (p', b', io')
     \<Longrightarrow> persists b b'"
  by (auto simp: collectGuessesFromPlayer_def split: outcome.splits
      dest: collectPositions_persists)

lemma detectAndRemoveCollisions_persists:
  assumes "Board_inv b" "detectAndRemoveCollisions p1 p2 b = (p1', p2', b', cols)"
  shows "persists b b'"
proof -
  from assms(2)
  have "b' = snd (snd (removeCollidingMines_loop (currentMines p1) (currentMines p2) [] [] b))"
    by (auto simp: detectAndRemoveCollisions_def removeCollidingMines_def Let_def
        split: prod.splits)
  with assms(1) show ?thesis by (simp add: removeCollidingMines_loop_persists)
qed

lemma resolveSelfDetonation_persists:
  assumes "Board_inv b" "resolveSelfDetonation p b = (n, p', b')"
  shows "persists b b'"
proof -
  from assms(2)
  have "b' = snd (snd (resolveSelfDetonation_loop (currentMines p) (currentGuesses p) 0 [] b))"
    by (auto simp: resolveSelfDetonation_def split: prod.splits)
  with assms(1) show ?thesis by (simp add: resolveSelfDetonation_loop_persists)
qed

lemma resolveSelfDetonations_persists:
  assumes "Board_inv b" "resolveSelfDetonations p1 p2 b = (p1', p2', b')"
  shows "persists b b'"
proof -
  obtain n1 p1a b1 where 1: "resolveSelfDetonation p1 b = (n1, p1a, b1)"
    by (cases "resolveSelfDetonation p1 b") auto
  obtain n2 p2a b2 where 2: "resolveSelfDetonation p2 b1 = (n2, p2a, b2)"
    by (cases "resolveSelfDetonation p2 b1") auto
  from assms(2) 1 2 have b': "b' = b2"
    by (simp add: resolveSelfDetonations_def)
  have "persists b b1" using assms(1) 1 by (rule resolveSelfDetonation_persists)
  moreover from this have "persists b1 b2"
    using 2 by (intro resolveSelfDetonation_persists [of b1 p2]) (auto dest: persists_inv)
  ultimately show ?thesis unfolding b' by (rule persists_trans)
qed

lemma resolveRound_persists:
  assumes "Board_inv b" "resolveRound p1 p2 b = (p1', p2', b')"
  shows "persists b b'"
proof -
  obtain p1a p2a where h: "resolveHits p1 p2 = (p1a, p2a)"
    by (cases "resolveHits p1 p2") auto
  obtain p1b p2b b1 where s: "resolveSelfDetonations p1a p2a b = (p1b, p2b, b1)"
    by (cases "resolveSelfDetonations p1a p2a b") auto
  let ?b2 = "disableGuessedPositions (currentGuesses p1b) b1"
  from assms(2) h s have b': "b' = disableGuessedPositions (currentGuesses p2b) ?b2"
    by (auto simp: resolveRound_def)
  have 1: "persists b b1" using assms(1) s by (rule resolveSelfDetonations_persists)
  then have 2: "persists b1 ?b2"
    by (intro disableGuessedPositions_persists persists_inv)
  then have 3: "persists ?b2 b'" unfolding b'
    by (intro disableGuessedPositions_persists persists_inv)
  from 1 2 3 show ?thesis by (blast intro: persists_trans)
qed

lemma playRound_persists:
  assumes "Board_inv b" "playRound p1 p2 b io = Returned (p1', p2', b', io')"
  shows "persists b b'"
proof -
  from assms(2) obtain p1a b1 io1 where
    s1: "placeMines p1 (remainingMines p1) (clearMines b) io = Returned (p1a, b1, io1)"
    by (auto simp: playRound_def split: outcome.splits)
  from assms(2) s1 obtain p2a b2 io2 where
    s2: "placeMines p2 (remainingMines p2) b1 io1 = Returned (p2a, b2, io2)"
    by (auto simp: playRound_def split: outcome.splits)
  obtain p1b p2b b3 cols where s3: "detectAndRemoveCollisions p1a p2a b2 = (p1b, p2b, b3, cols)"
    by (cases "detectAndRemoveCollisions p1a p2a b2") auto
  from assms(2) s1 s2 s3 obtain p1c b4 io3 where
    s4: "collectGuessesFromPlayer p1b (remainingMines p2b) b3 io2 = Returned (p1c, b4, io3)"
    by (auto simp: playRound_def split: outcome.splits)
  from assms(2) s1 s2 s3 s4 obtain p2c b5 io4 where
    s5: "collectGuessesFromPlayer p2b (remainingMines p1c) b4 io3 = Returned (p2c, b5, io4)"
    by (auto simp: playRound_def split: outcome.splits)
  from assms(2) s1 s2 s3 s4 s5 have s6: "resolveRound p1c p2c b5 = (p1', p2', b')"
    by (auto simp: playRound_def split: prod.splits)
  have q0: "persists b (clearMines b)" using assms(1) by (rule clearMines_persists)
  have q1: "persists (clearMines b) b1"
    using q0 s1 by (intro placeMines_persists [OF _ s1] persists_inv)
  have q2: "persists b1 b2" using q1 by (intro placeMines_persists [OF _ s2] persists_inv)
  have q3: "persists b2 b3"
    using q2 by (intro detectAndRemoveCollisions_persists [OF _ s3] persists_inv)
  have q4: "persists b3 b4"
    using q3 by (intro collectGuessesFromPlayer_persists [OF _ s4] persists_inv)
  have q5: "persists b4 b5"
    using q4 by (intro collectGuessesFromPlayer_persists [OF _ s5] persists_inv)
  have q6: "persists b5 b'" using q5 by (intro resolveRound_persists [OF _ s6] persists_inv)
  from q0 q1 q2 q3 q4 q5 q6 show ?thesis by (blast intro: persists_trans)
qed

lemma runMainLoop_persists:
  "Board_inv b \<Longrightarrow> runMainLoop n p1 p2 b io = Returned (p1', p2', b', io') \<Longrightarrow> persists b b'"
proof (induction n arbitrary: p1 p2 b io)
  case 0
  then show ?case by simp
next
  case (Suc n)
  from Suc.prems(2) obtain p1a p2a b1 io1 where
    r: "playRound p1 p2 b io = Returned (p1a, p2a, b1, io1)"
    by (auto split: outcome.splits)
  have 1: "persists b b1" using Suc.prems(1) r by (rule playRound_persists)
  show ?case
  proof (cases "fst (checkGameEnd p1a p2a)")
    case True
    with Suc.prems(2) r 1 show ?thesis by (auto simp: Let_def)
  next
    case False
    with Suc.prems(2) r have "runMainLoop n p1a p2a b1 io1 = Returned (p1', p2', b', io')"
      by (simp add: Let_def)
    with 1 have "persists b1 b'" by (intro Suc.IH) (auto dest: persists_inv)
    with 1 show ?thesis by (rule persists_trans)
  qed
qed

lemma flag_kept:
  fixes s s' f h :: "'a::len word"
  assumes "(s AND NOT h) AND s' = s AND NOT h" "f AND h = 0" "s AND f = f"
  shows "s' AND f = f"
proof (rule bit_eqI)
  fix n
  assume "possible_bit TYPE('a word) n"
  from assms(1) have 1: "bit ((s AND NOT h) AND s') n = bit (s AND NOT h) n" by simp
  from assms(2) have 2: "bit (f AND h) n = bit (0 :: 'a word) n" by simp
  from assms(3) have 3: "bit (s AND f) n = bit f n" by simp
  from 1 2 3 show "bit (s' AND f) n = bit f n"
    by (auto simp: bit_simps dest: bit_imp_le_length)
qed

lemma hasFlag_kept:
  assumes "(s AND NOT HasMine) AND s' = s AND NOT HasMine"
    and "f \<in> {Disabled, WasGuessed, SelfDetonated, HadCollision}"
    and "hasFlag s f"
  shows "hasFlag s' f"
proof -
  from assms(2) have "f AND HasMine = 0" "f \<noteq> FlagNone"
    by (auto simp: flag_defs)
  with assms(1,3) show ?thesis
    by (auto simp: hasFlag_def intro: flag_kept)
qed

lemma persists_flagsKept:
  assumes "Board_inv b" "persists b b'"
  shows "flagsKept b b'"
  unfolding flagsKept_def
proof (intro allI impI)
  fix c r s
  assume s: "getCellStatus b c r = Inr s"
  show "\<exists>s'. getCellStatus b' c r = Inr s' \<and>
              (hasFlag s Disabled \<longrightarrow> hasFlag s' Disabled) \<and>
              (hasFlag s WasGuessed \<longrightarrow> hasFlag s' WasGuessed) \<and>
              (hasFlag s SelfDetonated \<longrightarrow> hasFlag s' SelfDetonated) \<and>
              (hasFlag s HadCollision \<longrightarrow> hasFlag s' HadCollision) \<and>
              (s AND NOT HasMine) AND s' = s AND NOT HasMine"
  proof (cases "isValidPosition b c r")
    case False
    moreover from False assms(2) have "\<not> isValidPosition b' c r"
      by (simp add: persists_valid)
    ultimately show ?thesis using s
      by (auto simp: getCellStatus_def hasFlag_def flag_defs)
  next
    case True
    with assms have v': "isValidPosition b' c r" and inv': "Board_inv b'"
      by (simp_all add: persists_valid persists_inv)
    from True assms(1) s have s_eq: "s = cellAt b c r"
      by (simp add: getCellStatus_valid)
    from True assms(2)
    have k: "(s AND NOT HasMine) AND cellAt b' c r = s AND NOT HasMine"
      unfolding s_eq by (simp add: persists_def)
    have "getCellStatus b' c r = Inr (cellAt b' c r)"
      using inv' v' by (rule getCellStatus_valid)
    with k show ?thesis
      by (auto intro: hasFlag_kept [OF k])
  qed
qed

section \<open>No exception leaves the game on a constructed board\<close>

lemma requestPosition_no_throw: "Board_inv b \<Longrightarrow> requestPosition b inp \<noteq> Threw e"
  by (induction b inp rule: requestPosition.induct)
     (auto simp: Let_def isDisabled_total)

lemma generateRandomPosition_no_throw:
  "Board_inv b \<Longrightarrow> generateRandomPosition b rs \<noteq> Threw e"
  by (induction b rs rule: generateRandomPosition.induct)
     (auto simp: Let_def isDisabled_total)

lemma nextPosition_no_throw: "Board_inv b \<Longrightarrow> nextPosition p b io \<noteq> Threw e"
  by (auto simp: nextPosition_def requestPosition_no_throw generateRandomPosition_no_throw
      split: outcome.splits)

lemma collectPositions_loop_no_throw:
  "Board_inv b \<Longrightarrow> collectPositions_loop p cnt b t m io \<noteq> Threw e"
proof (induction p cnt b t m io rule: collectPositions_loop.induct)
  case (1 player cnt board targetList mark io)
  show ?case
  proof (cases "length targetList < size_t_of_int cnt")
    case False
    then show ?thesis
      by (simp add: collectPositions_loop.simps [of player cnt board])
  next
    case True
    show ?thesis
    proof (cases "nextPosition player board io")
      case (Returned x)
      obtain pos io1 where x: "x = (pos, io1)" by (cases x)
      have inv1: "Board_inv (safeCellAccess board (column pos) (row pos) markMine)"
        using "1.prems" by (rule safeCellAccess_inv)
      show ?thesis
        using True Returned x "1.prems" inv1
          "1.IH"(1) [OF True Returned [unfolded x] refl refl]
          "1.IH"(2) [OF True Returned [unfolded x] refl refl]
        by (auto simp: collectPositions_loop.simps [of player cnt board targetList] Let_def)
    next
      case (Threw e')
      with "1.prems" show ?thesis by (simp add: nextPosition_no_throw)
    next
      case StillRunning
      with True show ?thesis
        by (simp add: collectPositions_loop.simps [of player cnt board])
    qed
  qed
qed

lemma placeMines_no_throw: "Board_inv b \<Longrightarrow> placeMines p q b io \<noteq> Threw e"
  by (auto simp: placeMines_def collectPositions_def collectPositions_loop_no_throw
      split: outcome.splits)

lemma collectGuessesFromPlayer_no_throw:
  "Board_inv b \<Longrightarrow> collectGuessesFromPlayer p q b io \<noteq> Threw e"
  by (auto simp: collectGuessesFromPlayer_def collectPositions_def
      collectPositions_loop_no_throw split: outcome.splits)

lemma playRound_no_throw:
  assumes "Board_inv b"
  shows "playRound p1 p2 b io \<noteq> Threw e"
proof
  assume t: "playRound p1 p2 b io = Threw e"
  have i0: "Board_inv (clearMines b)"
    using clearMines_persists [OF assms] by (rule persists_inv)
  from t i0 obtain p1a b1 io1 where
    s1: "placeMines p1 (remainingMines p1) (clearMines b) io = Returned (p1a, b1, io1)"
    by (auto simp: playRound_def placeMines_no_throw split: outcome.splits)
  have i1: "Board_inv b1" using placeMines_persists [OF i0 s1] by (rule persists_inv)
  from t s1 i1 obtain p2a b2 io2 where
    s2: "placeMines p2 (remainingMines p2) b1 io1 = Returned (p2a, b2, io2)"
    by (auto simp: playRound_def placeMines_no_throw split: outcome.splits)
  have i2: "Board_inv b2" using placeMines_persists [OF i1 s2] by (rule persists_inv)
  obtain p1b p2b b3 cols where s3: "detectAndRemoveCollisions p1a p2a b2 = (p1b, p2b, b3, cols)"
    by (cases "detectAndRemoveCollisions p1a p2a b2") auto
  have i3: "Board_inv b3"
    using detectAndRemoveCollisions_persists [OF i2 s3] by (rule persists_inv)
  from t s1 s2 s3 i3 obtain p1c b4 io3 where
    s4: "collectGuessesFromPlayer p1b (remainingMines p2b) b3 io2 = Returned (p1c, b4, io3)"
    by (auto simp: playRound_def collectGuessesFromPlayer_no_throw split: outcome.splits)
  have i4: "Board_inv b4"
    using collectGuessesFromPlayer_persists [OF i3 s4] by (rule persists_inv)
  from t s1 s2 s3 s4 i4 show False
    by (auto simp: playRound_def collectGuessesFromPlayer_no_throw
        split: outcome.splits prod.splits)
qed

lemma runMainLoop_no_throw: "Board_inv b \<Longrightarrow> runMainLoop n p1 p2 b io \<noteq> Threw e"
proof (induction n arbitrary: p1 p2 b io)
  case 0
  then show ?case by simp
next
  case (Suc n)
  show ?case
  proof (cases "playRound p1 p2 b io")
    case (Returned x)
    obtain p1a p2a b1 io1 where x: "x = (p1a, p2a, b1, io1)" by (cases x)
    have "Board_inv b1"
      using playRound_persists [OF Suc.prems Returned [unfolded x]] by (rule persists_inv)
    with Returned x Suc.IH [of b1] show ?thesis by (simp add: Let_def)
  next
    case (Threw e')
    with Suc.prems show ?thesis by (simp add: playRound_no_throw)
  next
    case StillRunning
    then show ?thesis by simp
  qed
qed

section \<open>Counting\<close>

lemma matchesAny_iff: "matchesAny p qs \<longleftrightarrow> (\<exists>q \<in> set qs. samePosition p q)"
  by (induction qs) auto

lemma samePosition_eq [simp]: "samePosition p q \<longleftrightarrow> p = q"
  for p q :: Position
  by (auto simp: samePosition_def)

lemma matchesAny_mem: "matchesAny p qs \<longleftrightarrow> p \<in> set qs"
  by (simp add: matchesAny_iff)

lemma countHits_loop_eq:
  "countHits_loop mines attacks hits =
     hits + of_nat (length (filter (\<lambda>g. g \<in> set mines) attacks))"
  by (induction attacks arbitrary: hits) (auto simp: matchesAny_mem)

lemma countHits_eq:
  "countHits defender attacks =
     of_nat (length (filter (\<lambda>g. g \<in> set (currentMines defender)) attacks))"
  by (simp add: countHits_def countHits_loop_eq)

section \<open>The cells of a board\<close>

lemma Position_eq_iff: "p = \<lparr>column = c, row = r\<rparr> \<longleftrightarrow> column p = c \<and> row p = r"
  for p :: Position
  by (cases p) auto

lemma boardPositions_iff:
  "p \<in> set (boardPositions b) \<longleftrightarrow> isValidPosition b (column p) (row p)"
proof
  assume "p \<in> set (boardPositions b)"
  then obtain c r where c: "c < unat (width b)" and r: "r < unat (height b)"
    and p: "p = \<lparr>column = of_nat c, row = of_nat r\<rparr>"
    by (auto simp: boardPositions_def)
  from c have "unat (of_nat c :: u32) = c"
    by (intro le_unat_uoi [of _ "width b"]) simp
  moreover from r have "unat (of_nat r :: u32) = r"
    by (intro le_unat_uoi [of _ "height b"]) simp
  ultimately show "isValidPosition b (column p) (row p)"
    using c r p by (simp add: isValidPosition_def word_less_nat_alt)
next
  assume "isValidPosition b (column p) (row p)"
  then have c: "unat (column p) \<in> {0..<unat (width b)}"
    and r: "unat (row p) \<in> {0..<unat (height b)}"
    by (simp_all add: isValidPosition_def word_less_nat_alt)
  have "p = \<lparr>column = of_nat (unat (column p)), row = of_nat (unat (row p))\<rparr>"
    by (simp add: Position_eq_iff)
  with r have "p \<in> (\<lambda>r. \<lparr>column = of_nat (unat (column p)), row = of_nat r\<rparr>) `
                   {0..<unat (height b)}"
    by (rule image_eqI [rotated])
  with c have "p \<in> (\<Union>c \<in> {0..<unat (width b)}.
                   (\<lambda>r. \<lparr>column = of_nat c, row = of_nat r\<rparr>) ` {0..<unat (height b)})"
    by (rule UN_I)
  also have "\<dots> = set (boardPositions b)"
    by (simp add: boardPositions_def)
  finally show "p \<in> set (boardPositions b)" .
qed

lemma length_boardPositions:
  "length (boardPositions b) = unat (width b) * unat (height b)"
  by (simp add: boardPositions_def length_concat comp_def sum_list_triv)

lemma length_boardPositions_le: "Board_inv b \<Longrightarrow> length (boardPositions b) \<le> 16"
proof -
  assume "Board_inv b"
  then have "unat (width b) \<le> 4" "unat (height b) \<le> 4"
    by (simp_all add: Board_inv_def k_defs word_le_nat_alt)
  then have "unat (width b) * unat (height b) \<le> 4 * 4"
    by (rule mult_le_mono)
  then show ?thesis by (simp add: length_boardPositions)
qed

lemma distinct_length_le:
  assumes "distinct xs" "set xs \<subseteq> set ys"
  shows "length xs \<le> length ys"
proof -
  have "length xs = card (set xs)" using assms(1) by (simp add: distinct_card)
  also have "\<dots> \<le> card (set ys)" using assms(2) by (intro card_mono) auto
  also have "\<dots> \<le> length ys" by (rule card_length)
  finally show ?thesis .
qed

lemma valid_mines_length:
  fixes ms :: "Position list"
  assumes "Board_inv b" "distinct ms" "\<forall>m \<in> set ms. isValidPosition b (column m) (row m)"
  shows "length ms \<le> 16"
proof -
  from assms(3) have "set ms \<subseteq> set (boardPositions b)"
    by (auto simp: boardPositions_iff)
  with assms(2) have "length ms \<le> length (boardPositions b)"
    by (rule distinct_length_le)
  with length_boardPositions_le [OF assms(1)] show ?thesis by simp
qed

lemma freeCells_iff:
  "p \<in> set (freeCells b) \<longleftrightarrow>
     isValidPosition b (column p) (row p) \<and> isDisabled b (column p) (row p) = Inr False"
  by (auto simp: freeCells_def boardPositions_iff)

section \<open>The floored subtraction of the mine counters\<close>

lemma floored_sub_le: "(if r \<ge> n then r - n else 0) \<le> r" for r n :: u32
  by (simp add: word_sub_le)

lemma unat_floored_sub: "unat (if r \<ge> n then r - n else 0) = unat r - unat n"
  for r n :: u32
  by (auto simp: unat_sub word_le_nat_alt)

section \<open>Collision resolution\<close>

lemma removeCollidingMines_loop_lists:
  "fst (removeCollidingMines_loop own opp res cols b) = res @ filter (\<lambda>m. m \<notin> set opp) own \<and>
   fst (snd (removeCollidingMines_loop own opp res cols b))
     = cols @ filter (\<lambda>m. m \<in> set opp) own"
  by (induction own arbitrary: res cols b) (auto simp: matchesAny_mem)

lemma keepNonCollidingMines_loop_eq:
  "keepNonCollidingMines_loop own opp res = res @ filter (\<lambda>m. m \<notin> set opp) own"
  by (induction own arbitrary: res) (auto simp: matchesAny_mem)

lemma markCollision_idem [simp]: "markCollision (markCollision s) = markCollision s"
  unfolding markCollision_def by (auto intro!: bit_eqI simp: bit_simps)

lemma removeCollidingMines_loop_cells:
  "Board_inv b \<Longrightarrow> isValidPosition b c r \<Longrightarrow>
   cellAt (snd (snd (removeCollidingMines_loop own opp res cols b))) c r =
     (if \<lparr>column = c, row = r\<rparr> \<in> set own \<and> \<lparr>column = c, row = r\<rparr> \<in> set opp
      then markCollision (cellAt b c r) else cellAt b c r)"
proof (induction own arbitrary: res cols b)
  case Nil
  then show ?case by simp
next
  case (Cons mine own)
  show ?case
  proof (cases "matchesAny mine opp")
    case False
    with Cons show ?thesis by (auto simp: matchesAny_mem)
  next
    case True
    let ?b1 = "safeCellAccess b (column mine) (row mine) markCollision"
    have inv1: "Board_inv ?b1" using Cons.prems(1) by (rule safeCellAccess_inv)
    have v1: "isValidPosition ?b1 c r" using Cons.prems(2) by simp
    have here: "\<lparr>column = c, row = r\<rparr> = mine \<longleftrightarrow> c = column mine \<and> r = row mine"
      by (cases mine) auto
    have c1: "cellAt ?b1 c r =
        (if c = column mine \<and> r = row mine then markCollision (cellAt b c r) else cellAt b c r)"
      using Cons.prems by (auto simp: cellAt_safeCellAccess)
    from True Cons.IH [OF inv1 v1] c1 here show ?thesis
      by (auto simp: matchesAny_mem)
  qed
qed

lemma hasFlag_markCollision:
  "hasFlag (markCollision s) HadCollision \<and> hasFlag (markCollision s) Disabled \<and>
   \<not> hasFlag (markCollision s) HasMine"
proof -
  have 1: "markCollision s AND HadCollision = HadCollision"
    unfolding markCollision_def flag_defs by (auto intro!: bit_eqI simp: bit_simps)
  have 2: "markCollision s AND Disabled = Disabled"
    unfolding markCollision_def flag_defs by (auto intro!: bit_eqI simp: bit_simps)
  have 3: "markCollision s AND HasMine = 0"
    unfolding markCollision_def by (auto intro!: bit_eqI simp: bit_simps)
  from 1 2 3 show ?thesis
    by (simp add: hasFlag_def) (simp add: flag_defs)
qed

lemma removed_count:
  "(word_of_int (int (length xs) - int (length (filter (\<lambda>m. \<not> P m) xs))) :: u32)
     = of_nat (length (filter P xs))"
proof -
  have "length xs = length (filter P xs) + length (filter (\<lambda>m. \<not> P m) xs)"
    by (simp add: sum_length_filter_compl)
  then have "int (length xs) - int (length (filter (\<lambda>m. \<not> P m) xs))
               = int (length (filter P xs))"
    by simp
  then show ?thesis by simp
qed

lemma detectAndRemoveCollisions_eq:
  assumes "detectAndRemoveCollisions p1 p2 b = (p1', p2', b', cols)"
  shows "currentMines p1' = filter (\<lambda>m. m \<notin> set (currentMines p2)) (currentMines p1)"
    and "currentMines p2' = filter (\<lambda>m. m \<notin> set (currentMines p1)) (currentMines p2)"
    and "cols = filter (\<lambda>m. m \<in> set (currentMines p2)) (currentMines p1)"
    and "b' = snd (snd (removeCollidingMines_loop (currentMines p1) (currentMines p2) [] [] b))"
    and "remainingMines p1' =
           (if remainingMines p1
                 \<ge> of_nat (length (filter (\<lambda>m. m \<in> set (currentMines p2)) (currentMines p1)))
            then remainingMines p1
                 - of_nat (length (filter (\<lambda>m. m \<in> set (currentMines p2)) (currentMines p1)))
            else 0)"
    and "remainingMines p2' =
           (if remainingMines p2
                 \<ge> of_nat (length (filter (\<lambda>m. m \<in> set (currentMines p1)) (currentMines p2)))
            then remainingMines p2
                 - of_nat (length (filter (\<lambda>m. m \<in> set (currentMines p1)) (currentMines p2)))
            else 0)"
    and "currentGuesses p1' = currentGuesses p1" and "currentGuesses p2' = currentGuesses p2"
    and "isHuman p1' = isHuman p1" and "isHuman p2' = isHuman p2"
    and "name p1' = name p1" and "name p2' = name p2"
proof -
  obtain new1 cs bb where
    r: "removeCollidingMines_loop (currentMines p1) (currentMines p2) [] [] b = (new1, cs, bb)"
    by (cases "removeCollidingMines_loop (currentMines p1) (currentMines p2) [] [] b") auto
  from removeCollidingMines_loop_lists [of "currentMines p1" "currentMines p2" "[]" "[]" b] r
  have new1: "new1 = filter (\<lambda>m. m \<notin> set (currentMines p2)) (currentMines p1)"
    and cs: "cs = filter (\<lambda>m. m \<in> set (currentMines p2)) (currentMines p1)"
    by simp_all
  have new2: "keepNonCollidingMines (currentMines p2) (currentMines p1)
                = filter (\<lambda>m. m \<notin> set (currentMines p1)) (currentMines p2)"
    by (simp add: keepNonCollidingMines_def keepNonCollidingMines_loop_eq)
  note rc1 = removed_count [of "currentMines p1" "\<lambda>m. m \<in> set (currentMines p2)"]
  note rc2 = removed_count [of "currentMines p2" "\<lambda>m. m \<in> set (currentMines p1)"]
  from assms r have
    e: "p1' = p1\<lparr>currentMines := new1,
                 remainingMines :=
                   (if remainingMines p1
                        \<ge> word_of_int (int (length (currentMines p1)) - int (length new1))
                    then remainingMines p1
                        - word_of_int (int (length (currentMines p1)) - int (length new1))
                    else 0)\<rparr>"
       "p2' = p2\<lparr>currentMines := keepNonCollidingMines (currentMines p2) (currentMines p1),
                 remainingMines :=
                   (if remainingMines p2
                        \<ge> word_of_int (int (length (currentMines p2))
                             - int (length (keepNonCollidingMines (currentMines p2) (currentMines p1))))
                    then remainingMines p2
                        - word_of_int (int (length (currentMines p2))
                             - int (length (keepNonCollidingMines (currentMines p2) (currentMines p1))))
                    else 0)\<rparr>"
       "b' = bb" "cols = cs"
    by (auto simp: detectAndRemoveCollisions_def removeCollidingMines_def Let_def)
  show "currentMines p1' = filter (\<lambda>m. m \<notin> set (currentMines p2)) (currentMines p1)"
    by (simp add: e new1)
  show "currentMines p2' = filter (\<lambda>m. m \<notin> set (currentMines p1)) (currentMines p2)"
    by (simp add: e new2)
  show "cols = filter (\<lambda>m. m \<in> set (currentMines p2)) (currentMines p1)"
    by (simp add: e cs)
  show "b' = snd (snd (removeCollidingMines_loop (currentMines p1) (currentMines p2) [] [] b))"
    by (simp add: e r)
  show "remainingMines p1' =
           (if remainingMines p1
                 \<ge> of_nat (length (filter (\<lambda>m. m \<in> set (currentMines p2)) (currentMines p1)))
            then remainingMines p1
                 - of_nat (length (filter (\<lambda>m. m \<in> set (currentMines p2)) (currentMines p1)))
            else 0)"
    unfolding e new1 using rc1 by simp
  show "remainingMines p2' =
           (if remainingMines p2
                 \<ge> of_nat (length (filter (\<lambda>m. m \<in> set (currentMines p1)) (currentMines p2)))
            then remainingMines p2
                 - of_nat (length (filter (\<lambda>m. m \<in> set (currentMines p1)) (currentMines p2)))
            else 0)"
    unfolding e new2 using rc2 by simp
  show "currentGuesses p1' = currentGuesses p1" "currentGuesses p2' = currentGuesses p2"
    "isHuman p1' = isHuman p1" "isHuman p2' = isHuman p2"
    "name p1' = name p1" "name p2' = name p2"
    by (simp_all add: e)
qed

section \<open>Hits and self-detonation\<close>

lemma resolveSelfDetonation_loop_lists:
  "fst (resolveSelfDetonation_loop mines gs n upd b)
     = n + of_nat (length (filter (\<lambda>m. m \<in> set gs) mines)) \<and>
   fst (snd (resolveSelfDetonation_loop mines gs n upd b))
     = upd @ filter (\<lambda>m. m \<notin> set gs) mines"
  by (induction mines arbitrary: n upd b) (auto simp: matchesAny_mem Let_def)

lemma resolveSelfDetonation_eq:
  assumes "resolveSelfDetonation p b = (n, p', b')"
  shows "n = of_nat (length (filter (\<lambda>m. m \<in> set (currentGuesses p)) (currentMines p)))"
    and "p' = p\<lparr>currentMines :=
                  filter (\<lambda>m. m \<notin> set (currentGuesses p)) (currentMines p)\<rparr>"
proof -
  obtain k upd bb where
    r: "resolveSelfDetonation_loop (currentMines p) (currentGuesses p) 0 [] b = (k, upd, bb)"
    by (cases "resolveSelfDetonation_loop (currentMines p) (currentGuesses p) 0 [] b") auto
  from resolveSelfDetonation_loop_lists [of "currentMines p" "currentGuesses p" 0 "[]" b] r
  have "k = of_nat (length (filter (\<lambda>m. m \<in> set (currentGuesses p)) (currentMines p)))"
    and "upd = filter (\<lambda>m. m \<notin> set (currentGuesses p)) (currentMines p)"
    by simp_all
  with assms r
  show "n = of_nat (length (filter (\<lambda>m. m \<in> set (currentGuesses p)) (currentMines p)))"
    and "p' = p\<lparr>currentMines :=
                  filter (\<lambda>m. m \<notin> set (currentGuesses p)) (currentMines p)\<rparr>"
    by (auto simp: resolveSelfDetonation_def)
qed

lemma fst_resolveSelfDetonation:
  "fst (resolveSelfDetonation p b)
     = of_nat (length (filter (\<lambda>m. m \<in> set (currentGuesses p)) (currentMines p)))"
  by (cases "resolveSelfDetonation p b") (simp add: resolveSelfDetonation_eq(1))

lemma resolveHits_eq:
  assumes "resolveHits p1 p2 = (p1', p2')"
  shows "p1' = p1\<lparr>remainingMines :=
                   (if remainingMines p1 \<ge> countHits p1 (currentGuesses p2)
                    then remainingMines p1 - countHits p1 (currentGuesses p2) else 0)\<rparr>"
    and "p2' = p2\<lparr>remainingMines :=
                   (if remainingMines p2 \<ge> countHits p2 (currentGuesses p1)
                    then remainingMines p2 - countHits p2 (currentGuesses p1) else 0)\<rparr>"
  using assms by (auto simp: resolveHits_def Let_def)

lemma resolveSelfDetonations_eq:
  assumes "resolveSelfDetonations p1 p2 b = (p1', p2', b')"
  shows "p1' = p1\<lparr>currentMines :=
                    filter (\<lambda>m. m \<notin> set (currentGuesses p1)) (currentMines p1),
                  remainingMines :=
                    (if remainingMines p1 \<ge> fst (resolveSelfDetonation p1 b)
                     then remainingMines p1 - fst (resolveSelfDetonation p1 b) else 0)\<rparr>"
    and "p2' = p2\<lparr>currentMines :=
                    filter (\<lambda>m. m \<notin> set (currentGuesses p2)) (currentMines p2),
                  remainingMines :=
                    (if remainingMines p2 \<ge> fst (resolveSelfDetonation p2 b)
                     then remainingMines p2 - fst (resolveSelfDetonation p2 b) else 0)\<rparr>"
proof -
  obtain n1 p1a b1 where 1: "resolveSelfDetonation p1 b = (n1, p1a, b1)"
    by (cases "resolveSelfDetonation p1 b") auto
  obtain n2 p2a b2 where 2: "resolveSelfDetonation p2 b1 = (n2, p2a, b2)"
    by (cases "resolveSelfDetonation p2 b1") auto
  note e1 = resolveSelfDetonation_eq [OF 1] and e2 = resolveSelfDetonation_eq [OF 2]
  from assms 1 2 have
    "p1' = p1a\<lparr>remainingMines :=
                 (if remainingMines p1a \<ge> n1 then remainingMines p1a - n1 else 0)\<rparr>"
    "p2' = p2a\<lparr>remainingMines :=
                 (if remainingMines p2a \<ge> n2 then remainingMines p2a - n2 else 0)\<rparr>"
    by (auto simp: resolveSelfDetonations_def)
  then show "p1' = p1\<lparr>currentMines :=
                    filter (\<lambda>m. m \<notin> set (currentGuesses p1)) (currentMines p1),
                  remainingMines :=
                    (if remainingMines p1 \<ge> fst (resolveSelfDetonation p1 b)
                     then remainingMines p1 - fst (resolveSelfDetonation p1 b) else 0)\<rparr>"
    and "p2' = p2\<lparr>currentMines :=
                    filter (\<lambda>m. m \<notin> set (currentGuesses p2)) (currentMines p2),
                  remainingMines :=
                    (if remainingMines p2 \<ge> fst (resolveSelfDetonation p2 b)
                     then remainingMines p2 - fst (resolveSelfDetonation p2 b) else 0)\<rparr>"
    unfolding fst_resolveSelfDetonation e1 e2 by simp_all
qed

lemma placeMines_player:
  "placeMines p q b io = Returned (p', b', io') \<Longrightarrow> \<exists>ms. p' = p\<lparr>currentMines := ms\<rparr>"
  by (auto simp: placeMines_def split: outcome.splits)

lemma collectGuessesFromPlayer_player:
  "collectGuessesFromPlayer p q b io = Returned (p', b', io')
     \<Longrightarrow> \<exists>gs. p' = p\<lparr>currentGuesses := gs\<rparr>"
  by (auto simp: collectGuessesFromPlayer_def split: outcome.splits)

lemma resolveRound_remaining:
  assumes "resolveRound p1 p2 b = (p1', p2', b')"
  shows "remainingMines p1' \<le> remainingMines p1" and "remainingMines p2' \<le> remainingMines p2"
proof -
  obtain p1a p2a where h: "resolveHits p1 p2 = (p1a, p2a)"
    by (cases "resolveHits p1 p2") auto
  obtain p1b p2b b1 where s: "resolveSelfDetonations p1a p2a b = (p1b, p2b, b1)"
    by (cases "resolveSelfDetonations p1a p2a b") auto
  from assms h s have e: "p1' = p1b" "p2' = p2b" by (auto simp: resolveRound_def)
  have "remainingMines p1b \<le> remainingMines p1a" "remainingMines p2b \<le> remainingMines p2a"
    unfolding resolveSelfDetonations_eq [OF s] by (simp_all add: word_sub_le)
  moreover
  have "remainingMines p1a \<le> remainingMines p1" "remainingMines p2a \<le> remainingMines p2"
    unfolding resolveHits_eq [OF h] by (simp_all add: word_sub_le)
  ultimately show "remainingMines p1' \<le> remainingMines p1"
    and "remainingMines p2' \<le> remainingMines p2"
    unfolding e by auto
qed

lemma playRound_steps:
  assumes "playRound p1 p2 b io = Returned (p1', p2', b', io')"
  obtains p1a b1 io1 p2a b2 io2 p1b p2b b3 cols p1c b4 io3 p2c b5 where
    "placeMines p1 (remainingMines p1) (clearMines b) io = Returned (p1a, b1, io1)"
    "placeMines p2 (remainingMines p2) b1 io1 = Returned (p2a, b2, io2)"
    "detectAndRemoveCollisions p1a p2a b2 = (p1b, p2b, b3, cols)"
    "collectGuessesFromPlayer p1b (remainingMines p2b) b3 io2 = Returned (p1c, b4, io3)"
    "collectGuessesFromPlayer p2b (remainingMines p1c) b4 io3 = Returned (p2c, b5, io')"
    "resolveRound p1c p2c b5 = (p1', p2', b')"
proof -
  from assms obtain p1a b1 io1 where
    s1: "placeMines p1 (remainingMines p1) (clearMines b) io = Returned (p1a, b1, io1)"
    by (auto simp: playRound_def split: outcome.splits)
  from assms s1 obtain p2a b2 io2 where
    s2: "placeMines p2 (remainingMines p2) b1 io1 = Returned (p2a, b2, io2)"
    by (auto simp: playRound_def split: outcome.splits)
  obtain p1b p2b b3 cols where s3: "detectAndRemoveCollisions p1a p2a b2 = (p1b, p2b, b3, cols)"
    by (cases "detectAndRemoveCollisions p1a p2a b2") auto
  from assms s1 s2 s3 obtain p1c b4 io3 where
    s4: "collectGuessesFromPlayer p1b (remainingMines p2b) b3 io2 = Returned (p1c, b4, io3)"
    by (auto simp: playRound_def split: outcome.splits)
  from assms s1 s2 s3 s4 obtain p2c b5 io4 where
    s5: "collectGuessesFromPlayer p2b (remainingMines p1c) b4 io3 = Returned (p2c, b5, io4)"
    by (auto simp: playRound_def split: outcome.splits)
  from assms s1 s2 s3 s4 s5 have s6: "resolveRound p1c p2c b5 = (p1', p2', b')" and "io4 = io'"
    by (auto simp: playRound_def split: prod.splits)
  with s1 s2 s3 s4 s5 that show thesis by blast
qed

lemma playRound_remaining:
  assumes "playRound p1 p2 b io = Returned (p1', p2', b', io')"
  shows "remainingMines p1' \<le> remainingMines p1" and "remainingMines p2' \<le> remainingMines p2"
proof -
  from assms obtain p1a b1 io1 p2a b2 io2 p1b p2b b3 cols p1c b4 io3 p2c b5 where
    s1: "placeMines p1 (remainingMines p1) (clearMines b) io = Returned (p1a, b1, io1)" and
    s2: "placeMines p2 (remainingMines p2) b1 io1 = Returned (p2a, b2, io2)" and
    s3: "detectAndRemoveCollisions p1a p2a b2 = (p1b, p2b, b3, cols)" and
    s4: "collectGuessesFromPlayer p1b (remainingMines p2b) b3 io2 = Returned (p1c, b4, io3)" and
    s5: "collectGuessesFromPlayer p2b (remainingMines p1c) b4 io3 = Returned (p2c, b5, io')" and
    s6: "resolveRound p1c p2c b5 = (p1', p2', b')"
    by (rule playRound_steps)
  from placeMines_player [OF s1] placeMines_player [OF s2]
  have a: "remainingMines p1a = remainingMines p1" "remainingMines p2a = remainingMines p2"
    by auto
  have b: "remainingMines p1b \<le> remainingMines p1a" "remainingMines p2b \<le> remainingMines p2a"
    unfolding detectAndRemoveCollisions_eq(5,6) [OF s3] by (simp_all add: word_sub_le)
  from collectGuessesFromPlayer_player [OF s4] collectGuessesFromPlayer_player [OF s5]
  have c: "remainingMines p1c = remainingMines p1b" "remainingMines p2c = remainingMines p2b"
    by auto
  note d = resolveRound_remaining [OF s6]
  from a b c d show "remainingMines p1' \<le> remainingMines p1"
    and "remainingMines p2' \<le> remainingMines p2"
    by auto
qed

lemma runMainLoop_remaining:
  "runMainLoop n p1 p2 b io = Returned (p1', p2', b', io')
     \<Longrightarrow> remainingMines p1' \<le> remainingMines p1 \<and> remainingMines p2' \<le> remainingMines p2"
proof (induction n arbitrary: p1 p2 b io)
  case 0
  then show ?case by simp
next
  case (Suc n)
  from Suc.prems obtain p1a p2a b1 io1 where
    r: "playRound p1 p2 b io = Returned (p1a, p2a, b1, io1)"
    by (auto split: outcome.splits)
  note le = playRound_remaining [OF r]
  show ?case
  proof (cases "fst (checkGameEnd p1a p2a)")
    case True
    with Suc.prems r le show ?thesis by (auto simp: Let_def)
  next
    case False
    with Suc.prems r have "runMainLoop n p1a p2a b1 io1 = Returned (p1', p2', b', io')"
      by (simp add: Let_def)
    from Suc.IH [OF this] le show ?thesis by auto
  qed
qed

section \<open>Clearing and placing mines\<close>

lemma unmarkMine_idem [simp]: "unmarkMine (unmarkMine s) = unmarkMine s"
  unfolding unmarkMine_def by (auto intro!: bit_eqI simp: bit_simps)

lemma markMine_idem [simp]: "markMine (markMine s) = markMine s"
  unfolding markMine_def by (auto intro!: bit_eqI simp: bit_simps)

lemma markMine_unmarkMine: "markMine (unmarkMine s) = markMine s"
  unfolding markMine_def unmarkMine_def by (auto intro!: bit_eqI simp: bit_simps)

lemma markMine_hasFlag: "hasFlag s HasMine \<Longrightarrow> markMine s = s"
proof -
  assume "hasFlag s HasMine"
  then have "s AND HasMine = HasMine" by (simp add: hasFlag_def flag_defs)
  then have "s OR HasMine = s OR (s AND HasMine)" by simp
  also have "\<dots> = s" by (auto intro!: bit_eqI simp: bit_simps)
  finally show ?thesis by (simp add: markMine_def)
qed

lemma unmarkMine_no_mine: "\<not> hasFlag s HasMine \<Longrightarrow> unmarkMine s = s"
proof -
  assume "\<not> hasFlag s HasMine"
  then have "s AND HasMine \<noteq> HasMine" by (simp add: hasFlag_def flag_defs)
  then have "s AND 2 \<noteq> 2" by (simp add: HasMine_def)
  have "\<not> bit s 1"
  proof
    assume "bit s 1"
    then have "s AND 2 = 2" by (intro bit_eqI) (auto simp: bit_simps)
    with \<open>s AND 2 \<noteq> 2\<close> show False by simp
  qed
  then show ?thesis
    unfolding unmarkMine_def HasMine_def
    by (auto intro!: bit_eqI simp: bit_simps)
qed

lemma clear_row_cells:
  "Board_inv b \<Longrightarrow> isValidPosition b c' r' \<Longrightarrow>
   cellAt (fold (\<lambda>r b'. safeCellAccess b' c (of_nat r) unmarkMine) rs b) c' r' =
     (if c' = c \<and> r' \<in> of_nat ` set rs then unmarkMine (cellAt b c' r') else cellAt b c' r')"
proof (induction rs arbitrary: b)
  case Nil
  then show ?case by simp
next
  case (Cons r rs)
  let ?b1 = "safeCellAccess b c (of_nat r) unmarkMine"
  have inv1: "Board_inv ?b1" using Cons.prems(1) by (rule safeCellAccess_inv)
  have v1: "isValidPosition ?b1 c' r'" using Cons.prems(2) by simp
  have c1: "cellAt ?b1 c' r' =
      (if c' = c \<and> r' = of_nat r then unmarkMine (cellAt b c' r') else cellAt b c' r')"
    using Cons.prems by (auto simp: cellAt_safeCellAccess)
  from Cons.IH [OF inv1 v1] c1 show ?case by auto
qed

lemma clear_row_persists:
  "Board_inv b \<Longrightarrow> persists b (fold (\<lambda>r b'. safeCellAccess b' c (of_nat r) unmarkMine) rs b)"
  by (intro fold_persists safeCellAccess_persists keepsOtherFlags_callbacks)

lemma clear_columns_cells:
  "Board_inv b \<Longrightarrow> isValidPosition b c' r' \<Longrightarrow>
   cellAt (fold (\<lambda>c b. fold (\<lambda>r b'. safeCellAccess b' (of_nat c) (of_nat r) unmarkMine)
                         [0..<unat (getHeight b)] b) cs b) c' r' =
     (if c' \<in> of_nat ` set cs then unmarkMine (cellAt b c' r') else cellAt b c' r')"
proof (induction cs arbitrary: b)
  case Nil
  then show ?case by simp
next
  case (Cons c cs)
  let ?b1 = "fold (\<lambda>r b'. safeCellAccess b' (of_nat c) (of_nat r) unmarkMine)
               [0..<unat (getHeight b)] b"
  have p1: "persists b ?b1" using Cons.prems(1) by (rule clear_row_persists)
  then have inv1: "Board_inv ?b1" by (rule persists_inv)
  have v1: "isValidPosition ?b1 c' r'" using Cons.prems(2) p1 by (simp add: persists_valid)
  have "unat r' < unat (height b)"
    using Cons.prems(2) by (simp add: isValidPosition_def word_less_nat_alt)
  then have "of_nat (unat r') \<in> (of_nat ` set [0..<unat (getHeight b)] :: u32 set)"
    unfolding getHeight_def by (intro imageI) simp
  then have "r' \<in> of_nat ` set [0..<unat (getHeight b)]" by simp
  with clear_row_cells [OF Cons.prems, of "of_nat c" "[0..<unat (getHeight b)]"]
  have c1: "cellAt ?b1 c' r' =
      (if c' = of_nat c then unmarkMine (cellAt b c' r') else cellAt b c' r')"
    by simp
  from Cons.IH [OF inv1 v1] c1 show ?case by auto
qed

lemma clearMines_cells:
  assumes "Board_inv b" "isValidPosition b c r"
  shows "cellAt (clearMines b) c r = unmarkMine (cellAt b c r)"
proof -
  have "unat c < unat (width b)"
    using assms(2) by (simp add: isValidPosition_def word_less_nat_alt)
  then have "of_nat (unat c) \<in> (of_nat ` set [0..<unat (getWidth b)] :: u32 set)"
    unfolding getWidth_def by (intro imageI) simp
  then have "c \<in> of_nat ` set [0..<unat (getWidth b)]" by simp
  with clear_columns_cells [OF assms, of "[0..<unat (getWidth b)]"] show ?thesis
    by (simp add: clearMines_def)
qed

lemma setHasMine_persists: "Board_inv b \<Longrightarrow> persists b (setHasMine ps b)"
proof (induction ps arbitrary: b)
  case Nil
  then show ?case by (simp add: persists_refl)
next
  case (Cons p ps)
  let ?b1 = "safeCellAccess b (column p) (row p) markMine"
  have 1: "persists b ?b1"
    using Cons.prems by (intro safeCellAccess_persists keepsOtherFlags_callbacks)
  then have "persists ?b1 (setHasMine ps ?b1)" by (intro Cons.IH persists_inv)
  with 1 show ?case by (auto intro: persists_trans)
qed

lemma setHasMine_cells:
  "Board_inv b \<Longrightarrow> isValidPosition b c r \<Longrightarrow>
   cellAt (setHasMine ps b) c r =
     (if \<lparr>column = c, row = r\<rparr> \<in> set ps then markMine (cellAt b c r) else cellAt b c r)"
proof (induction ps arbitrary: b)
  case Nil
  then show ?case by simp
next
  case (Cons p ps)
  let ?b1 = "safeCellAccess b (column p) (row p) markMine"
  have inv1: "Board_inv ?b1" using Cons.prems(1) by (rule safeCellAccess_inv)
  have v1: "isValidPosition ?b1 c r" using Cons.prems(2) by simp
  have here: "\<lparr>column = c, row = r\<rparr> = p \<longleftrightarrow> c = column p \<and> r = row p"
    by (cases p) auto
  have c1: "cellAt ?b1 c r =
      (if c = column p \<and> r = row p then markMine (cellAt b c r) else cellAt b c r)"
    using Cons.prems by (auto simp: cellAt_safeCellAccess)
  from Cons.IH [OF inv1 v1] c1 here show ?case by auto
qed

lemma setHasMine_append: "setHasMine (ps @ qs) b = setHasMine qs (setHasMine ps b)"
  by (induction ps arbitrary: b) auto

lemma collectPositions_loop_board:
  "collectPositions_loop p cnt b t True io = Returned (t', b', io')
     \<Longrightarrow> \<exists>new. t' = t @ new \<and> b' = setHasMine new b"
proof (induction p cnt b t "True" io rule: collectPositions_loop.induct)
  case (1 player cnt board targetList io)
  show ?case
  proof (cases "length targetList < size_t_of_int cnt")
    case False
    with "1.prems" show ?thesis
      by (simp add: collectPositions_loop.simps [of player cnt board])
  next
    case True
    with "1.prems" obtain pos io1 where nx: "nextPosition player board io = Returned (pos, io1)"
      by (auto simp: collectPositions_loop.simps [of player cnt board] split: outcome.splits)
    show ?thesis
    proof (cases "list_ex (\<lambda>p. samePosition p pos) targetList")
      case rep: True
      with True nx "1.prems" "1.hyps"(2) [OF True nx refl refl] show ?thesis
        by (simp add: collectPositions_loop.simps [of player cnt board targetList])
    next
      case rep: False
      let ?b1 = "safeCellAccess board (column pos) (row pos) markMine"
      from True nx rep "1.prems"
      have "collectPositions_loop player cnt ?b1 (targetList @ [pos]) True io1
              = Returned (t', b', io')"
        by (simp add: collectPositions_loop.simps [of player cnt board targetList])
      with "1.hyps"(1) [OF True nx refl refl] rep
      obtain new where "t' = (targetList @ [pos]) @ new" "b' = setHasMine new ?b1"
        by auto
      then have "t' = targetList @ (pos # new) \<and> b' = setHasMine (pos # new) board"
        by simp
      then show ?thesis by blast
    qed
  qed
qed

lemma board_eqI:
  assumes "Board_inv b" "Board_inv b'" "width b' = width b" "height b' = height b"
    and cells: "\<And>c r. isValidPosition b c r \<Longrightarrow> cellAt b' c r = cellAt b c r"
  shows "b' = b"
proof -
  have "grid b' = grid b"
  proof (rule nth_equalityI)
    show "length (grid b') = length (grid b)"
      using assms(1-3) by (simp add: Board_inv_def)
  next
    fix i assume i: "i < length (grid b')"
    with assms(1-3) have iw: "i < unat (width b)" by (simp add: Board_inv_def)
    then have ui: "unat (of_nat i :: u32) = i" by (intro le_unat_uoi [of _ "width b"]) simp
    from i iw assms(1,2,4) have len: "length (grid b' ! i) = unat (height b)"
      "length (grid b ! i) = unat (height b)"
      by (simp_all add: Board_inv_def list_all_length)
    show "grid b' ! i = grid b ! i"
    proof (rule nth_equalityI)
      show "length (grid b' ! i) = length (grid b ! i)" using len by simp
    next
      fix j assume "j < length (grid b' ! i)"
      with len have jh: "j < unat (height b)" by simp
      then have uj: "unat (of_nat j :: u32) = j" by (intro le_unat_uoi [of _ "height b"]) simp
      from iw jh ui uj have "isValidPosition b (of_nat i) (of_nat j)"
        by (simp add: isValidPosition_def word_less_nat_alt)
      from cells [OF this] ui uj show "grid b' ! i ! j = grid b ! i ! j"
        by (simp add: cellAt_def)
    qed
  qed
  with assms(3,4) show ?thesis by simp
qed

lemma mineLayout_iff:
  "p \<in> set (mineLayout b) \<longleftrightarrow>
     isValidPosition b (column p) (row p) \<and> hasFlag (cellAt b (column p) (row p)) HasMine"
  by (auto simp: mineLayout_def boardPositions_iff)

lemma getCellStatus_invalid:
  "\<not> isValidPosition b c r \<Longrightarrow> getCellStatus b c r = Inr FlagNone"
  by (simp add: getCellStatus_def)

section \<open>Collecting positions\<close>

lemma distinct_boardPositions: "distinct (boardPositions b)"
proof -
  let ?f = "\<lambda>p :: Position. (unat (column p), unat (row p))"
  let ?mk = "\<lambda>c r. \<lparr>column = of_nat c, row = of_nat r\<rparr> :: Position"
  let ?w = "unat (width b)" and ?h = "unat (height b)"
  have inner: "map ?f (map (?mk c) [0..<?h]) = map (Pair c) [0..<?h]"
    if "c \<in> set [0..<?w]" for c
  proof -
    from that have "unat (of_nat c :: u32) = c"
      by (intro le_unat_uoi [of _ "width b"]) simp
    moreover have "unat (of_nat r :: u32) = r" if "r \<in> set [0..<?h]" for r
      using that by (intro le_unat_uoi [of _ "height b"]) simp
    ultimately show ?thesis by simp
  qed
  have "map ?f (boardPositions b) = concat (map (map ?f) (map (\<lambda>c. map (?mk c) [0..<?h]) [0..<?w]))"
    unfolding boardPositions_def by (rule map_concat)
  also have "\<dots> = concat (map (\<lambda>c. map ?f (map (?mk c) [0..<?h])) [0..<?w])"
    by (simp only: map_map comp_def)
  also have "\<dots> = concat (map (\<lambda>c. map (Pair c) [0..<?h]) [0..<?w])"
    by (rule arg_cong [where f = concat], rule map_cong [OF refl], rule inner)
  also have "\<dots> = List.product [0..<?w] [0..<?h]"
    by (simp only: product_concat_map)
  finally have "map ?f (boardPositions b) = List.product [0..<?w] [0..<?h]" .
  moreover have "distinct (List.product [0..<?w] [0..<?h])"
    by (simp add: distinct_product)
  ultimately have "distinct (map ?f (boardPositions b))" by simp
  then show ?thesis by (simp add: distinct_map)
qed

lemma distinct_freeCells: "distinct (freeCells b)"
  by (simp add: freeCells_def distinct_boardPositions)

lemma hasFlag_markMine_Disabled: "hasFlag (markMine s) Disabled = hasFlag s Disabled"
proof -
  have "markMine s AND Disabled = s AND Disabled"
    unfolding markMine_def flag_defs by (auto intro!: bit_eqI simp: bit_simps)
  moreover have "Disabled \<noteq> FlagNone" by (simp add: flag_defs)
  ultimately show ?thesis by (simp add: hasFlag_def)
qed

lemma freeCells_markMine:
  assumes "Board_inv b"
  shows "freeCells (safeCellAccess b c r markMine) = freeCells b"
proof -
  let ?b1 = "safeCellAccess b c r markMine"
  have inv1: "Board_inv ?b1" using assms by (rule safeCellAccess_inv)
  have pos: "boardPositions ?b1 = boardPositions b" by (simp add: boardPositions_def)
  have "isDisabled ?b1 (column p) (row p) = isDisabled b (column p) (row p)"
    if "p \<in> set (boardPositions b)" for p
  proof -
    from that have v: "isValidPosition b (column p) (row p)" by (simp add: boardPositions_iff)
    then have "isValidPosition ?b1 (column p) (row p)" by simp
    with v assms inv1 show ?thesis
      by (simp add: isDisabled_valid cellAt_safeCellAccess hasFlag_markMine_Disabled)
  qed
  then show ?thesis
    unfolding freeCells_def pos by (intro filter_cong) auto
qed

lemma requestPosition_free:
  "Board_inv b \<Longrightarrow> requestPosition b inp = Returned (pos, rest) \<Longrightarrow> pos \<in> set (freeCells b)"
proof (induction b inp rule: requestPosition.induct)
  case (1 board)
  then show ?case by simp
next
  case (2 board rest)
  then show ?case by simp
next
  case (3 board c r rest')
  show ?case
  proof (cases "isValidPosition board (c - 1) (r - 1)")
    case False
    with 3 show ?thesis by (simp add: Let_def)
  next
    case True
    show ?thesis
    proof (cases "hasFlag (cellAt board (c - 1) (r - 1)) Disabled")
      case d: True
      with True 3 show ?thesis by (simp add: Let_def isDisabled_valid)
    next
      case d: False
      with True "3.prems" have "pos = \<lparr>column = c - 1, row = r - 1\<rparr>"
        by (simp add: Let_def isDisabled_valid)
      with True d "3.prems"(1) show ?thesis
        by (simp add: freeCells_iff isDisabled_valid)
    qed
  qed
qed

lemma generateRandomPosition_free:
  "Board_inv b \<Longrightarrow> generateRandomPosition b rs = Returned (pos, rest)
     \<Longrightarrow> pos \<in> set (freeCells b)"
proof (induction b rs rule: generateRandomPosition.induct)
  case (1 board r1 r2 rest')
  let ?c = "r1 mod getWidth board" and ?r = "r2 mod getHeight board"
  from "1.prems"(1) have "0 < width board" "0 < height board"
    by (auto simp: Board_inv_def k_defs word_le_nat_alt word_less_nat_alt)
  then have v: "isValidPosition board ?c ?r"
    by (simp add: isValidPosition_def getWidth_def getHeight_def word_mod_less_divisor)
  show ?case
  proof (cases "hasFlag (cellAt board ?c ?r) Disabled")
    case True
    with v 1 show ?thesis by (simp add: Let_def isDisabled_valid)
  next
    case False
    with v "1.prems" have "pos = \<lparr>column = ?c, row = ?r\<rparr>"
      by (simp add: Let_def isDisabled_valid)
    with v False "1.prems"(1) show ?thesis
      by (simp add: freeCells_iff isDisabled_valid)
  qed
qed simp_all

lemma nextPosition_free:
  "Board_inv b \<Longrightarrow> nextPosition p b io = Returned (pos, io') \<Longrightarrow> pos \<in> set (freeCells b)"
  by (auto simp: nextPosition_def split: if_splits outcome.splits
      dest: requestPosition_free generateRandomPosition_free)

lemma collectPositions_loop_target:
  "Board_inv b \<Longrightarrow> distinct t \<Longrightarrow> set t \<subseteq> set (freeCells b)
     \<Longrightarrow> collectPositions_loop p cnt b t m io = Returned (t', b', io')
     \<Longrightarrow> distinct t' \<and> set t' \<subseteq> set (freeCells b) \<and> size_t_of_int cnt \<le> length t' \<and>
         (length t \<le> size_t_of_int cnt \<longrightarrow> length t' = size_t_of_int cnt)"
proof (induction p cnt b t m io rule: collectPositions_loop.induct)
  case (1 player cnt board targetList mark io)
  show ?case
  proof (cases "length targetList < size_t_of_int cnt")
    case False
    with "1.prems" show ?thesis
      by (simp add: collectPositions_loop.simps [of player cnt board])
  next
    case True
    with "1.prems"(4) obtain pos io1 where nx: "nextPosition player board io = Returned (pos, io1)"
      by (auto simp: collectPositions_loop.simps [of player cnt board] split: outcome.splits)
    show ?thesis
    proof (cases "list_ex (\<lambda>p. samePosition p pos) targetList")
      case rep: True
      with True nx "1.prems"(4)
      have "collectPositions_loop player cnt board targetList mark io1 = Returned (t', b', io')"
        by (simp add: collectPositions_loop.simps [of player cnt board targetList])
      with "1.IH"(2) [OF True nx refl refl] rep "1.prems"(1-3) show ?thesis by simp
    next
      case rep: False
      let ?b1 = "if mark then safeCellAccess board (column pos) (row pos) markMine else board"
      have inv1: "Board_inv ?b1" using "1.prems"(1) by (simp add: safeCellAccess_inv)
      have free1: "freeCells ?b1 = freeCells board"
        using "1.prems"(1) by (simp add: freeCells_markMine)
      from rep have new: "pos \<notin> set targetList" by (simp add: list_ex_iff)
      have "pos \<in> set (freeCells board)" using "1.prems"(1) nx by (rule nextPosition_free)
      with new "1.prems"(2,3) have d: "distinct (targetList @ [pos])"
        and s: "set (targetList @ [pos]) \<subseteq> set (freeCells ?b1)"
        unfolding free1 by auto
      from True nx rep "1.prems"(4)
      have "collectPositions_loop player cnt ?b1 (targetList @ [pos]) mark io1
              = Returned (t', b', io')"
        by (simp add: collectPositions_loop.simps [of player cnt board targetList])
      from "1.IH"(1) [OF True nx refl refl _ inv1 d s this] rep True show ?thesis
        unfolding free1 by simp
    qed
  qed
qed


lemma size_t_of_int_5: "size_t_of_int 5 = 5"
  by (simp add: size_t_of_int_def)

lemma freeCells_Board_init_2_2: "length (freeCells (Board_init 2 2)) = 4"
  by code_simp

section \<open>Hits and self-detonation in one round\<close>

lemma markSelfDetonated_idem [simp]:
  "markSelfDetonated (markSelfDetonated s) = markSelfDetonated s"
  unfolding markSelfDetonated_def by (auto intro!: bit_eqI simp: bit_simps)

lemma hasFlag_markSelfDetonated:
  "hasFlag (markSelfDetonated s) SelfDetonated \<and> hasFlag (markSelfDetonated s) Disabled \<and>
   \<not> hasFlag (markSelfDetonated s) HasMine"
proof -
  have 1: "markSelfDetonated s AND SelfDetonated = SelfDetonated"
    unfolding markSelfDetonated_def flag_defs by (auto intro!: bit_eqI simp: bit_simps)
  have 2: "markSelfDetonated s AND Disabled = Disabled"
    unfolding markSelfDetonated_def flag_defs by (auto intro!: bit_eqI simp: bit_simps)
  have 3: "markSelfDetonated s AND HasMine = 0"
    unfolding markSelfDetonated_def by (auto intro!: bit_eqI simp: bit_simps)
  from 1 2 3 show ?thesis
    by (simp add: hasFlag_def) (simp add: flag_defs)
qed

lemma resolveSelfDetonation_loop_cells:
  "Board_inv b \<Longrightarrow> isValidPosition b c r \<Longrightarrow>
   cellAt (snd (snd (resolveSelfDetonation_loop mines gs n upd b))) c r =
     (if \<lparr>column = c, row = r\<rparr> \<in> set mines \<and> \<lparr>column = c, row = r\<rparr> \<in> set gs
      then markSelfDetonated (cellAt b c r) else cellAt b c r)"
proof (induction mines arbitrary: n upd b)
  case Nil
  then show ?case by simp
next
  case (Cons mine mines)
  show ?case
  proof (cases "matchesAny mine gs")
    case False
    with Cons show ?thesis by (auto simp: matchesAny_mem)
  next
    case True
    let ?b1 = "safeCellAccess b (column mine) (row mine) markSelfDetonated"
    have inv1: "Board_inv ?b1" using Cons.prems(1) by (rule safeCellAccess_inv)
    have v1: "isValidPosition ?b1 c r" using Cons.prems(2) by simp
    have here: "\<lparr>column = c, row = r\<rparr> = mine \<longleftrightarrow> c = column mine \<and> r = row mine"
      by (cases mine) auto
    have c1: "cellAt ?b1 c r =
        (if c = column mine \<and> r = row mine then markSelfDetonated (cellAt b c r)
         else cellAt b c r)"
      using Cons.prems by (auto simp: cellAt_safeCellAccess)
    from True Cons.IH [OF inv1 v1] c1 here show ?thesis
      by (auto simp: matchesAny_mem)
  qed
qed

lemma resolveSelfDetonation_marks:
  assumes "Board_inv b" "resolveSelfDetonation p b = (n, p', b')"
    and "m \<in> set (currentMines p)" "m \<in> set (currentGuesses p)"
    and "isValidPosition b (column m) (row m)"
  shows "hasFlag (cellAt b' (column m) (row m)) SelfDetonated"
proof -
  from assms(2)
  have b': "b' = snd (snd (resolveSelfDetonation_loop (currentMines p) (currentGuesses p) 0 [] b))"
    by (auto simp: resolveSelfDetonation_def split: prod.splits)
  have sm: "\<lparr>column = column m, row = row m\<rparr> = m" by (cases m) simp
  note resolveSelfDetonation_loop_cells [OF assms(1,5), of "currentMines p" "currentGuesses p"
      0 "[]", unfolded sm]
  with assms(3,4) show ?thesis
    unfolding b' by (simp add: hasFlag_markSelfDetonated)
qed

lemma persists_hasFlag:
  assumes "persists b b'" "isValidPosition b c r"
    and "f \<in> {Disabled, WasGuessed, SelfDetonated, HadCollision}"
    and "hasFlag (cellAt b c r) f"
  shows "hasFlag (cellAt b' c r) f"
proof -
  from assms(1,2)
  have "(cellAt b c r AND NOT HasMine) AND cellAt b' c r = cellAt b c r AND NOT HasMine"
    by (simp add: persists_def)
  from this assms(3,4) show ?thesis by (rule hasFlag_kept)
qed

lemma unat_count_filter:
  assumes "distinct xs" "length xs \<le> 16"
  shows "unat (of_nat (length (filter (\<lambda>x. x \<in> A) xs)) :: u32) = card (set xs \<inter> A)"
proof -
  have "length (filter (\<lambda>x. x \<in> A) xs) \<le> length xs" by (rule length_filter_le)
  with assms(2) have "length (filter (\<lambda>x. x \<in> A) xs) \<le> 16" by linarith
  then have "length (filter (\<lambda>x. x \<in> A) xs) \<le> unat (16 :: u32)" by simp
  then have "unat (of_nat (length (filter (\<lambda>x. x \<in> A) xs)) :: u32)
               = length (filter (\<lambda>x. x \<in> A) xs)"
    by (rule le_unat_uoi)
  also have "\<dots> = card (set xs \<inter> A)"
    using assms(1) by (simp add: distinct_length_filter Int_commute)
  finally show ?thesis .
qed

lemma resolveRound_eq:
  assumes "resolveRound p1 p2 b = (p1', p2', b')"
  shows "p1' = p1\<lparr>currentMines :=
                    filter (\<lambda>m. m \<notin> set (currentGuesses p1)) (currentMines p1),
                  remainingMines :=
                    (let r = (if remainingMines p1 \<ge> countHits p1 (currentGuesses p2)
                              then remainingMines p1 - countHits p1 (currentGuesses p2) else 0)
                     in if r \<ge> fst (resolveSelfDetonation p1 b)
                        then r - fst (resolveSelfDetonation p1 b) else 0)\<rparr>"
    and "p2' = p2\<lparr>currentMines :=
                    filter (\<lambda>m. m \<notin> set (currentGuesses p2)) (currentMines p2),
                  remainingMines :=
                    (let r = (if remainingMines p2 \<ge> countHits p2 (currentGuesses p1)
                              then remainingMines p2 - countHits p2 (currentGuesses p1) else 0)
                     in if r \<ge> fst (resolveSelfDetonation p2 b)
                        then r - fst (resolveSelfDetonation p2 b) else 0)\<rparr>"
proof -
  obtain p1a p2a where h: "resolveHits p1 p2 = (p1a, p2a)"
    by (cases "resolveHits p1 p2") auto
  obtain p1b p2b b1 where s: "resolveSelfDetonations p1a p2a b = (p1b, p2b, b1)"
    by (cases "resolveSelfDetonations p1a p2a b") auto
  from assms h s have e: "p1' = p1b" "p2' = p2b" by (auto simp: resolveRound_def)
  show "p1' = p1\<lparr>currentMines :=
                    filter (\<lambda>m. m \<notin> set (currentGuesses p1)) (currentMines p1),
                  remainingMines :=
                    (let r = (if remainingMines p1 \<ge> countHits p1 (currentGuesses p2)
                              then remainingMines p1 - countHits p1 (currentGuesses p2) else 0)
                     in if r \<ge> fst (resolveSelfDetonation p1 b)
                        then r - fst (resolveSelfDetonation p1 b) else 0)\<rparr>"
    unfolding e resolveSelfDetonations_eq [OF s] resolveHits_eq [OF h]
    by (simp add: fst_resolveSelfDetonation Let_def)
  show "p2' = p2\<lparr>currentMines :=
                    filter (\<lambda>m. m \<notin> set (currentGuesses p2)) (currentMines p2),
                  remainingMines :=
                    (let r = (if remainingMines p2 \<ge> countHits p2 (currentGuesses p1)
                              then remainingMines p2 - countHits p2 (currentGuesses p1) else 0)
                     in if r \<ge> fst (resolveSelfDetonation p2 b)
                        then r - fst (resolveSelfDetonation p2 b) else 0)\<rparr>"
    unfolding e resolveSelfDetonations_eq [OF s] resolveHits_eq [OF h]
    by (simp add: fst_resolveSelfDetonation Let_def)
qed

lemma resolveRound_marks:
  assumes "Board_inv b" "resolveRound p1 p2 b = (p1', p2', b')"
    and "isValidPosition b (column m) (row m)"
    and "m \<in> set (currentMines p1) \<and> m \<in> set (currentGuesses p1) \<or>
         m \<in> set (currentMines p2) \<and> m \<in> set (currentGuesses p2)"
  shows "hasFlag (cellAt b' (column m) (row m)) SelfDetonated"
proof -
  obtain p1a p2a where h: "resolveHits p1 p2 = (p1a, p2a)"
    by (cases "resolveHits p1 p2") auto
  note he = resolveHits_eq [OF h]
  obtain n1 p1b b1 where 1: "resolveSelfDetonation p1a b = (n1, p1b, b1)"
    by (cases "resolveSelfDetonation p1a b") auto
  obtain n2 p2b b2 where 2: "resolveSelfDetonation p2a b1 = (n2, p2b, b2)"
    by (cases "resolveSelfDetonation p2a b1") auto
  let ?p1c = "p1b\<lparr>remainingMines :=
                 (if remainingMines p1b \<ge> n1 then remainingMines p1b - n1 else 0)\<rparr>"
  let ?p2c = "p2b\<lparr>remainingMines :=
                 (if remainingMines p2b \<ge> n2 then remainingMines p2b - n2 else 0)\<rparr>"
  let ?b3 = "disableGuessedPositions (currentGuesses ?p1c) b2"
  from assms(2) h 1 2 have b': "b' = disableGuessedPositions (currentGuesses ?p2c) ?b3"
    by (auto simp: resolveRound_def resolveSelfDetonations_def)
  have q1: "persists b b1" using assms(1) 1 by (rule resolveSelfDetonation_persists)
  then have i1: "Board_inv b1" by (rule persists_inv)
  have q2: "persists b1 b2" using i1 2 by (rule resolveSelfDetonation_persists)
  then have i2: "Board_inv b2" by (rule persists_inv)
  have q3: "persists b2 ?b3" using i2 by (rule disableGuessedPositions_persists)
  then have "persists ?b3 b'"
    unfolding b' by (intro disableGuessedPositions_persists persists_inv)
  with q3 have q4: "persists b2 b'" by (rule persists_trans)
  have v1: "isValidPosition b1 (column m) (row m)"
    using assms(3) q1 by (simp add: persists_valid)
  then have v2: "isValidPosition b2 (column m) (row m)"
    using q2 by (simp add: persists_valid)
  have "hasFlag (cellAt b2 (column m) (row m)) SelfDetonated"
    using assms(4)
  proof
    assume "m \<in> set (currentMines p1) \<and> m \<in> set (currentGuesses p1)"
    then have "m \<in> set (currentMines p1a)" "m \<in> set (currentGuesses p1a)"
      by (simp_all add: he)
    with assms(1) 1 have "hasFlag (cellAt b1 (column m) (row m)) SelfDetonated"
      using assms(3) by (intro resolveSelfDetonation_marks)
    with q2 v1 show ?thesis by (intro persists_hasFlag [of b1 b2]) simp_all
  next
    assume "m \<in> set (currentMines p2) \<and> m \<in> set (currentGuesses p2)"
    then have "m \<in> set (currentMines p2a)" "m \<in> set (currentGuesses p2a)"
      by (simp_all add: he)
    with i1 2 v1 show ?thesis by (intro resolveSelfDetonation_marks)
  qed
  with q4 v2 show ?thesis by (intro persists_hasFlag [of b2 b']) simp_all
qed

section \<open>The hit pass and the self-detonation pass on the same mine\<close>

text \<open>
  Collision resolution (lines 419-420) and self-detonation (line 496) write the surviving
  mines back to \<open>currentMines\<close>; the hit pass (lines 546-550) only counts and leaves the
  list as it is. So \<^verbatim>\<open>resolveSelfDetonation\<close> still sees the mines the opponent has just
  hit: each player's \<open>remainingMines\<close> goes down by the number of the player's mines the
  opponent guessed and then by the number of the player's mines the player guessed, each
  time stopping at 0, and a mine that matches a guess of the opponent and a guess of its
  owner is counted in both passes, taking 2 off the owner's \<open>remainingMines\<close> (or all that
  is left of it) for one mine.
\<close>

lemma hit_and_self_detonation_both_count:
  assumes "Board_inv b"
    and "distinct (currentMines p1)" and "distinct (currentGuesses p1)"
    and "distinct (currentMines p2)" and "distinct (currentGuesses p2)"
    and "\<forall>q \<in> set (currentMines p1 @ currentGuesses p1 @ currentMines p2 @ currentGuesses p2).
           isValidPosition b (column q) (row q)"
    and "resolveRound p1 p2 b = (p1', p2', b')"
  shows "unat (countHits p1 (currentGuesses p2))
           = card (set (currentGuesses p2) \<inter> set (currentMines p1)) \<and>
         unat (countHits p2 (currentGuesses p1))
           = card (set (currentGuesses p1) \<inter> set (currentMines p2)) \<and>
         unat (fst (resolveSelfDetonation p1 b))
           = card (set (currentMines p1) \<inter> set (currentGuesses p1)) \<and>
         unat (fst (resolveSelfDetonation p2 b))
           = card (set (currentMines p2) \<inter> set (currentGuesses p2)) \<and>
         currentMines p1' = filter (\<lambda>m. m \<notin> set (currentGuesses p1)) (currentMines p1) \<and>
         currentMines p2' = filter (\<lambda>m. m \<notin> set (currentGuesses p2)) (currentMines p2) \<and>
         unat (remainingMines p1')
           = unat (remainingMines p1)
             - card (set (currentGuesses p2) \<inter> set (currentMines p1))
             - card (set (currentMines p1) \<inter> set (currentGuesses p1)) \<and>
         unat (remainingMines p2')
           = unat (remainingMines p2)
             - card (set (currentGuesses p1) \<inter> set (currentMines p2))
             - card (set (currentMines p2) \<inter> set (currentGuesses p2)) \<and>
         (m \<in> set (currentMines p1) \<and> m \<in> set (currentGuesses p2) \<and>
          m \<in> set (currentGuesses p1) \<longrightarrow>
            m \<notin> set (currentMines p1') \<and>
            (\<exists>s. getCellStatus b' (column m) (row m) = Inr s \<and> hasFlag s SelfDetonated) \<and>
            unat (remainingMines p1') \<le> unat (remainingMines p1) - 2) \<and>
         (m \<in> set (currentMines p2) \<and> m \<in> set (currentGuesses p1) \<and>
          m \<in> set (currentGuesses p2) \<longrightarrow>
            m \<notin> set (currentMines p2') \<and>
            (\<exists>s. getCellStatus b' (column m) (row m) = Inr s \<and> hasFlag s SelfDetonated) \<and>
            unat (remainingMines p2') \<le> unat (remainingMines p2) - 2)"
proof -
  let ?m1 = "currentMines p1" and ?g1 = "currentGuesses p1"
  let ?m2 = "currentMines p2" and ?g2 = "currentGuesses p2"
  note e = resolveRound_eq [OF assms(7)]
  have len: "length ?m1 \<le> 16" "length ?g1 \<le> 16" "length ?m2 \<le> 16" "length ?g2 \<le> 16"
    using assms(1-6) by (auto intro!: valid_mines_length)
  have h1: "unat (countHits p1 ?g2) = card (set ?g2 \<inter> set ?m1)"
    unfolding countHits_eq using assms(5) len(4) by (rule unat_count_filter)
  have h2: "unat (countHits p2 ?g1) = card (set ?g1 \<inter> set ?m2)"
    unfolding countHits_eq using assms(3) len(2) by (rule unat_count_filter)
  have s1: "unat (fst (resolveSelfDetonation p1 b)) = card (set ?m1 \<inter> set ?g1)"
    unfolding fst_resolveSelfDetonation using assms(2) len(1) by (rule unat_count_filter)
  have s2: "unat (fst (resolveSelfDetonation p2 b)) = card (set ?m2 \<inter> set ?g2)"
    unfolding fst_resolveSelfDetonation using assms(4) len(3) by (rule unat_count_filter)
  have l1: "currentMines p1' = filter (\<lambda>m. m \<notin> set ?g1) ?m1"
    and l2: "currentMines p2' = filter (\<lambda>m. m \<notin> set ?g2) ?m2"
    by (simp_all add: e)
  have "unat (remainingMines p1')
      = unat (remainingMines p1) - unat (countHits p1 ?g2) - unat (fst (resolveSelfDetonation p1 b))"
    unfolding e by (simp add: Let_def unat_floored_sub)
  then have r1: "unat (remainingMines p1')
      = unat (remainingMines p1) - card (set ?g2 \<inter> set ?m1) - card (set ?m1 \<inter> set ?g1)"
    unfolding h1 s1 .
  have "unat (remainingMines p2')
      = unat (remainingMines p2) - unat (countHits p2 ?g1) - unat (fst (resolveSelfDetonation p2 b))"
    unfolding e by (simp add: Let_def unat_floored_sub)
  then have r2: "unat (remainingMines p2')
      = unat (remainingMines p2) - card (set ?g1 \<inter> set ?m2) - card (set ?m2 \<inter> set ?g2)"
    unfolding h2 s2 .
  have inv': "Board_inv b'"
    using resolveRound_persists [OF assms(1,7)] by (rule persists_inv)
  have cell: "\<exists>s. getCellStatus b' (column m) (row m) = Inr s \<and> hasFlag s SelfDetonated"
    if own: "m \<in> set ?m1 \<and> m \<in> set ?g1 \<or> m \<in> set ?m2 \<and> m \<in> set ?g2"
  proof -
    from own assms(6) have v: "isValidPosition b (column m) (row m)" by auto
    with resolveRound_persists [OF assms(1,7)]
    have "isValidPosition b' (column m) (row m)" by (simp add: persists_valid)
    with inv' resolveRound_marks [OF assms(1,7) v own] show ?thesis
      by (simp add: getCellStatus_valid)
  qed
  have two: "1 \<le> card (A \<inter> B)" if "finite A" "x \<in> A" "x \<in> B" for x :: Position and A B
    using that by (simp add: Suc_le_eq card_gt_0_iff) blast
  have d1: "unat (remainingMines p1') \<le> unat (remainingMines p1) - 2"
    if "m \<in> set ?m1" "m \<in> set ?g2" "m \<in> set ?g1"
    using two [of "set ?g2" m "set ?m1"] two [of "set ?m1" m "set ?g1"] that r1 by simp
  have d2: "unat (remainingMines p2') \<le> unat (remainingMines p2) - 2"
    if "m \<in> set ?m2" "m \<in> set ?g1" "m \<in> set ?g2"
    using two [of "set ?g1" m "set ?m2"] two [of "set ?m2" m "set ?g2"] that r2 by simp
  from h1 h2 s1 s2 l1 l2 r1 r2 cell d1 d2 show ?thesis
    by (simp only: l1 l2 set_filter mem_Collect_eq) blast
qed


lemma hit_and_self_detonation_both_count_example:
  "Board_inv \<lparr>width = 3, height = 3, grid = [[2, 2, 0], [2, 2, 0], [0, 0, 0]]\<rparr> \<and>
   resolveRound
     \<lparr>isHuman = True, name = ''A'', remainingMines = 2,
        currentMines = [\<lparr>column = 0, row = 0\<rparr>, \<lparr>column = 1, row = 1\<rparr>],
        currentGuesses = [\<lparr>column = 0, row = 0\<rparr>, \<lparr>column = 2, row = 2\<rparr>]\<rparr>
     \<lparr>isHuman = True, name = ''B'', remainingMines = 2,
        currentMines = [\<lparr>column = 0, row = 1\<rparr>, \<lparr>column = 1, row = 0\<rparr>],
        currentGuesses = [\<lparr>column = 0, row = 0\<rparr>, \<lparr>column = 2, row = 1\<rparr>]\<rparr>
     \<lparr>width = 3, height = 3, grid = [[2, 2, 0], [2, 2, 0], [0, 0, 0]]\<rparr>
   = (\<lparr>isHuman = True, name = ''A'', remainingMines = 0,
         currentMines = [\<lparr>column = 1, row = 1\<rparr>],
         currentGuesses = [\<lparr>column = 0, row = 0\<rparr>, \<lparr>column = 2, row = 2\<rparr>]\<rparr>,
      \<lparr>isHuman = True, name = ''B'', remainingMines = 2,
         currentMines = [\<lparr>column = 0, row = 1\<rparr>, \<lparr>column = 1, row = 0\<rparr>],
         currentGuesses = [\<lparr>column = 0, row = 0\<rparr>, \<lparr>column = 2, row = 1\<rparr>]\<rparr>,
      \<lparr>width = 3, height = 3, grid = [[13, 2, 0], [2, 2, 0], [0, 5, 5]]\<rparr>) \<and>
   \<lparr>column = 0, row = 0\<rparr> \<in> set [\<lparr>column = 0, row = 0\<rparr>, \<lparr>column = 1, row = (1 :: u32)\<rparr>] \<and>
   \<lparr>column = 0, row = 0\<rparr> \<in> set [\<lparr>column = 0, row = 0\<rparr>, \<lparr>column = 2, row = (1 :: u32)\<rparr>] \<and>
   \<lparr>column = 0, row = 0\<rparr> \<in> set [\<lparr>column = 0, row = 0\<rparr>, \<lparr>column = 2, row = (2 :: u32)\<rparr>] \<and>
   \<lparr>column = 0, row = 0\<rparr> \<notin> set [\<lparr>column = 1, row = (1 :: u32)\<rparr>] \<and>
   (\<exists>s. getCellStatus \<lparr>width = 3, height = 3, grid = [[13, 2, 0], [2, 2, 0], [0, 5, 5]]\<rparr> 0 0
          = Inr s \<and> hasFlag s SelfDetonated) \<and>
   unat (0 :: u32) \<le> unat (2 :: u32) - 2"
proof -
  let ?B = "\<lparr>width = 3, height = 3, grid = [[2, 2, 0], [2, 2, 0], [0, 0, 0]]\<rparr>"
  let ?A = "\<lparr>isHuman = True, name = ''A'', remainingMines = 2,
        currentMines = [\<lparr>column = 0, row = 0\<rparr>, \<lparr>column = 1, row = 1\<rparr>],
        currentGuesses = [\<lparr>column = 0, row = 0\<rparr>, \<lparr>column = 2, row = 2\<rparr>]\<rparr>"
  let ?P = "\<lparr>isHuman = True, name = ''B'', remainingMines = 2,
        currentMines = [\<lparr>column = 0, row = 1\<rparr>, \<lparr>column = 1, row = 0\<rparr>],
        currentGuesses = [\<lparr>column = 0, row = 0\<rparr>, \<lparr>column = 2, row = 1\<rparr>]\<rparr>"
  have inv: "Board_inv ?B"
    by (simp add: Board_inv_def k_defs)
  have d: "distinct (currentMines ?A)" "distinct (currentGuesses ?A)"
    "distinct (currentMines ?P)" "distinct (currentGuesses ?P)"
    by simp_all
  have v: "\<forall>q \<in> set (currentMines ?A @ currentGuesses ?A @ currentMines ?P @ currentGuesses ?P).
           isValidPosition ?B (column q) (row q)"
    by (simp add: isValidPosition_def)
  have run: "resolveRound ?A ?P ?B
   = (\<lparr>isHuman = True, name = ''A'', remainingMines = 0,
         currentMines = [\<lparr>column = 1, row = 1\<rparr>],
         currentGuesses = [\<lparr>column = 0, row = 0\<rparr>, \<lparr>column = 2, row = 2\<rparr>]\<rparr>,
      \<lparr>isHuman = True, name = ''B'', remainingMines = 2,
         currentMines = [\<lparr>column = 0, row = 1\<rparr>, \<lparr>column = 1, row = 0\<rparr>],
         currentGuesses = [\<lparr>column = 0, row = 0\<rparr>, \<lparr>column = 2, row = 1\<rparr>]\<rparr>,
      \<lparr>width = 3, height = 3, grid = [[13, 2, 0], [2, 2, 0], [0, 5, 5]]\<rparr>)"
    by code_simp
  from hit_and_self_detonation_both_count [OF inv d v run, of "\<lparr>column = 0, row = 0\<rparr>"]
    inv run
  show ?thesis by simp
qed

section \<open>The claims\<close>

text \<open>
  C1: in one round a mine that the opponent has hit must not be self-detonated as well, so
  that one mine takes at most 1 off its owner's \<open>remainingMines\<close>. The code does not keep
  this. On a 3 x 3 board, with two mines left each, A places mines at (0,0) and (1,1), B at
  (0,1) and (1,0); A guesses (0,0) and (2,2), B guesses (0,0) and (2,1). The mine at (0,0)
  is counted as a hit for B, \<^verbatim>\<open>resolveSelfDetonation\<close> then still finds it in A's list
  and self-detonates it, and A's \<open>remainingMines\<close> goes from 2 to 0 with the mine at (1,1)
  untouched: \<^verbatim>\<open>checkGameEnd\<close> announces B as the winner. The round is the one played
  from the keyboard input shown.
\<close>

theorem hit_mine_self_detonated_too:
  "playRound
     \<lparr>isHuman = True, name = ''A'', remainingMines = 2, currentMines = [], currentGuesses = []\<rparr>
     \<lparr>isHuman = True, name = ''B'', remainingMines = 2, currentMines = [], currentGuesses = []\<rparr>
     (Board_init 3 3)
     \<lparr>keyboard = [Some (1, 1), Some (2, 2), Some (1, 2), Some (2, 1),
                  Some (1, 1), Some (3, 3), Some (1, 1), Some (3, 2)], rands = []\<rparr>
   = Returned
      (\<lparr>isHuman = True, name = ''A'', remainingMines = 0,
         currentMines = [\<lparr>column = 1, row = 1\<rparr>],
         currentGuesses = [\<lparr>column = 0, row = 0\<rparr>, \<lparr>column = 2, row = 2\<rparr>]\<rparr>,
       \<lparr>isHuman = True, name = ''B'', remainingMines = 2,
         currentMines = [\<lparr>column = 0, row = 1\<rparr>, \<lparr>column = 1, row = 0\<rparr>],
         currentGuesses = [\<lparr>column = 0, row = 0\<rparr>, \<lparr>column = 2, row = 1\<rparr>]\<rparr>,
       \<lparr>width = 3, height = 3, grid = [[13, 2, 0], [2, 2, 0], [0, 5, 5]]\<rparr>,
       \<lparr>keyboard = [], rands = []\<rparr>) \<and>
   countHits
     \<lparr>isHuman = True, name = ''A'', remainingMines = 2,
        currentMines = [\<lparr>column = 0, row = 0\<rparr>, \<lparr>column = 1, row = 1\<rparr>],
        currentGuesses = [\<lparr>column = 0, row = 0\<rparr>, \<lparr>column = 2, row = 2\<rparr>]\<rparr>
     [\<lparr>column = 0, row = 0\<rparr>, \<lparr>column = 2, row = 1\<rparr>] = 1 \<and>
   resolveSelfDetonation
     \<lparr>isHuman = True, name = ''A'', remainingMines = 1,
        currentMines = [\<lparr>column = 0, row = 0\<rparr>, \<lparr>column = 1, row = 1\<rparr>],
        currentGuesses = [\<lparr>column = 0, row = 0\<rparr>, \<lparr>column = 2, row = 2\<rparr>]\<rparr>
     \<lparr>width = 3, height = 3, grid = [[2, 2, 0], [2, 2, 0], [0, 0, 0]]\<rparr>
   = (1,
      \<lparr>isHuman = True, name = ''A'', remainingMines = 1,
        currentMines = [\<lparr>column = 1, row = 1\<rparr>],
        currentGuesses = [\<lparr>column = 0, row = 0\<rparr>, \<lparr>column = 2, row = 2\<rparr>]\<rparr>,
      \<lparr>width = 3, height = 3, grid = [[9, 2, 0], [2, 2, 0], [0, 0, 0]]\<rparr>) \<and>
   resolveRound
     \<lparr>isHuman = True, name = ''A'', remainingMines = 2,
        currentMines = [\<lparr>column = 0, row = 0\<rparr>, \<lparr>column = 1, row = 1\<rparr>],
        currentGuesses = [\<lparr>column = 0, row = 0\<rparr>, \<lparr>column = 2, row = 2\<rparr>]\<rparr>
     \<lparr>isHuman = True, name = ''B'', remainingMines = 2,
        currentMines = [\<lparr>column = 0, row = 1\<rparr>, \<lparr>column = 1, row = 0\<rparr>],
        currentGuesses = [\<lparr>column = 0, row = 0\<rparr>, \<lparr>column = 2, row = 1\<rparr>]\<rparr>
     \<lparr>width = 3, height = 3, grid = [[2, 2, 0], [2, 2, 0], [0, 0, 0]]\<rparr>
   = (\<lparr>isHuman = True, name = ''A'', remainingMines = 0,
         currentMines = [\<lparr>column = 1, row = 1\<rparr>],
         currentGuesses = [\<lparr>column = 0, row = 0\<rparr>, \<lparr>column = 2, row = 2\<rparr>]\<rparr>,
      \<lparr>isHuman = True, name = ''B'', remainingMines = 2,
         currentMines = [\<lparr>column = 0, row = 1\<rparr>, \<lparr>column = 1, row = 0\<rparr>],
         currentGuesses = [\<lparr>column = 0, row = 0\<rparr>, \<lparr>column = 2, row = 1\<rparr>]\<rparr>,
      \<lparr>width = 3, height = 3, grid = [[13, 2, 0], [2, 2, 0], [0, 5, 5]]\<rparr>) \<and>
   checkGameEnd
     \<lparr>isHuman = True, name = ''A'', remainingMines = 0,
        currentMines = [\<lparr>column = 1, row = 1\<rparr>],
        currentGuesses = [\<lparr>column = 0, row = 0\<rparr>, \<lparr>column = 2, row = 2\<rparr>]\<rparr>
     \<lparr>isHuman = True, name = ''B'', remainingMines = 2,
        currentMines = [\<lparr>column = 0, row = 1\<rparr>, \<lparr>column = 1, row = 0\<rparr>],
        currentGuesses = [\<lparr>column = 0, row = 0\<rparr>, \<lparr>column = 2, row = 1\<rparr>]\<rparr>
   = (True, Some (WinTheGame ''B''))"
  by code_simp

text \<open>
  C2: in collision removal, hit resolution and self-detonation each player's
  \<open>remainingMines\<close> (an unsigned number, so never negative) is replaced by itself minus a
  count, or by 0 when the count is larger; so it never increases in any of these steps, in a
  whole round, or from round to round of the game.
\<close>

theorem remainingMines_never_increases:
  "remainingMines (fst (detectAndRemoveCollisions p1 p2 b)) \<le> remainingMines p1 \<and>
   remainingMines (fst (snd (detectAndRemoveCollisions p1 p2 b))) \<le> remainingMines p2 \<and>
   remainingMines (fst (resolveHits p1 p2)) \<le> remainingMines p1 \<and>
   remainingMines (snd (resolveHits p1 p2)) \<le> remainingMines p2 \<and>
   remainingMines (fst (resolveSelfDetonations p1 p2 b)) \<le> remainingMines p1 \<and>
   remainingMines (fst (snd (resolveSelfDetonations p1 p2 b))) \<le> remainingMines p2 \<and>
   unat (remainingMines (fst (resolveHits p1 p2)))
     = unat (remainingMines p1) - unat (countHits p1 (currentGuesses p2)) \<and>
   unat (remainingMines (snd (resolveHits p1 p2)))
     = unat (remainingMines p2) - unat (countHits p2 (currentGuesses p1)) \<and>
   unat (remainingMines (fst (resolveSelfDetonations p1 p2 b)))
     = unat (remainingMines p1) - unat (fst (resolveSelfDetonation p1 b)) \<and>
   unat (remainingMines (fst (snd (resolveSelfDetonations p1 p2 b))))
     = unat (remainingMines p2) - unat (fst (resolveSelfDetonation p2 b)) \<and>
   0 \<le> uint (remainingMines (fst (resolveSelfDetonations p1 p2 b))) \<and>
   (playRound p1 p2 b io = Returned (p1', p2', b', io') \<longrightarrow>
      remainingMines p1' \<le> remainingMines p1 \<and> remainingMines p2' \<le> remainingMines p2) \<and>
   (runMainLoop n p1 p2 b io = Returned (q1, q2, b'', io'') \<longrightarrow>
      remainingMines q1 \<le> remainingMines p1 \<and> remainingMines q2 \<le> remainingMines p2)"
proof -
  obtain d1 d2 bd cols where d: "detectAndRemoveCollisions p1 p2 b = (d1, d2, bd, cols)"
    by (cases "detectAndRemoveCollisions p1 p2 b") auto
  obtain h1 h2 where h: "resolveHits p1 p2 = (h1, h2)"
    by (cases "resolveHits p1 p2") auto
  obtain s1 s2 bs where s: "resolveSelfDetonations p1 p2 b = (s1, s2, bs)"
    by (cases "resolveSelfDetonations p1 p2 b") auto
  have 1: "remainingMines d1 \<le> remainingMines p1" "remainingMines d2 \<le> remainingMines p2"
    unfolding detectAndRemoveCollisions_eq(5,6) [OF d] by (simp_all add: word_sub_le)
  have 2: "remainingMines h1 \<le> remainingMines p1" "remainingMines h2 \<le> remainingMines p2"
    unfolding resolveHits_eq [OF h] by (simp_all add: word_sub_le)
  have 3: "remainingMines s1 \<le> remainingMines p1" "remainingMines s2 \<le> remainingMines p2"
    unfolding resolveSelfDetonations_eq [OF s] by (simp_all add: word_sub_le)
  have 4: "unat (remainingMines h1)
             = unat (remainingMines p1) - unat (countHits p1 (currentGuesses p2))"
    "unat (remainingMines h2)
             = unat (remainingMines p2) - unat (countHits p2 (currentGuesses p1))"
    unfolding resolveHits_eq [OF h] by (simp_all add: unat_floored_sub)
  have 5: "unat (remainingMines s1)
             = unat (remainingMines p1) - unat (fst (resolveSelfDetonation p1 b))"
    "unat (remainingMines s2)
             = unat (remainingMines p2) - unat (fst (resolveSelfDetonation p2 b))"
    unfolding resolveSelfDetonations_eq [OF s] by (simp_all add: unat_floored_sub)
  have 6: "remainingMines p1' \<le> remainingMines p1 \<and> remainingMines p2' \<le> remainingMines p2"
    if "playRound p1 p2 b io = Returned (p1', p2', b', io')"
    using playRound_remaining [OF that] by simp
  have 7: "remainingMines q1 \<le> remainingMines p1 \<and> remainingMines q2 \<le> remainingMines p2"
    if "runMainLoop n p1 p2 b io = Returned (q1, q2, b'', io'')"
    using that by (rule runMainLoop_remaining)
  from 1 2 3 4 5 6 7 show ?thesis
    unfolding d h s by simp
qed

theorem remainingMines_never_increases_witness:
  "playRound
     \<lparr>isHuman = True, name = ''A'', remainingMines = 2, currentMines = [], currentGuesses = []\<rparr>
     \<lparr>isHuman = True, name = ''B'', remainingMines = 2, currentMines = [], currentGuesses = []\<rparr>
     (Board_init 3 3)
     \<lparr>keyboard = [Some (1, 1), Some (2, 2), Some (2, 2), Some (3, 1),
                  Some (3, 1), Some (1, 2), Some (3, 3), Some (1, 3)], rands = []\<rparr>
   = Returned
      (\<lparr>isHuman = True, name = ''A'', remainingMines = 1,
         currentMines = [\<lparr>column = 0, row = 0\<rparr>],
         currentGuesses = [\<lparr>column = 2, row = 0\<rparr>]\<rparr>,
       \<lparr>isHuman = True, name = ''B'', remainingMines = 0,
         currentMines = [\<lparr>column = 2, row = 0\<rparr>],
         currentGuesses = [\<lparr>column = 0, row = 1\<rparr>]\<rparr>,
       \<lparr>width = 3, height = 3, grid = [[2, 5, 0], [0, 17, 0], [7, 0, 0]]\<rparr>,
       \<lparr>keyboard = [Some (3, 3), Some (1, 3)], rands = []\<rparr>) \<and>
   (1 :: u32) \<le> 2 \<and> (0 :: u32) \<le> 2"
proof -
  have run: "playRound
     \<lparr>isHuman = True, name = ''A'', remainingMines = 2, currentMines = [], currentGuesses = []\<rparr>
     \<lparr>isHuman = True, name = ''B'', remainingMines = 2, currentMines = [], currentGuesses = []\<rparr>
     (Board_init 3 3)
     \<lparr>keyboard = [Some (1, 1), Some (2, 2), Some (2, 2), Some (3, 1),
                  Some (3, 1), Some (1, 2), Some (3, 3), Some (1, 3)], rands = []\<rparr>
   = Returned
      (\<lparr>isHuman = True, name = ''A'', remainingMines = 1,
         currentMines = [\<lparr>column = 0, row = 0\<rparr>],
         currentGuesses = [\<lparr>column = 2, row = 0\<rparr>]\<rparr>,
       \<lparr>isHuman = True, name = ''B'', remainingMines = 0,
         currentMines = [\<lparr>column = 2, row = 0\<rparr>],
         currentGuesses = [\<lparr>column = 0, row = 1\<rparr>]\<rparr>,
       \<lparr>width = 3, height = 3, grid = [[2, 5, 0], [0, 17, 0], [7, 0, 0]]\<rparr>,
       \<lparr>keyboard = [Some (3, 3), Some (1, 3)], rands = []\<rparr>)"
    by code_simp
  from remainingMines_never_increases [THEN conjunct2, THEN conjunct2, THEN conjunct2,
      THEN conjunct2, THEN conjunct2, THEN conjunct2, THEN conjunct2, THEN conjunct2,
      THEN conjunct2, THEN conjunct2, THEN conjunct2, THEN conjunct1, THEN mp, OF run] run
  show ?thesis by simp
qed

text \<open>
  C3: for duplicate-free lists of mines on the board, \<^verbatim>\<open>detectAndRemoveCollisions\<close>
  removes from each player's list exactly the positions that are in both lists; every such
  cell then has \<open>HadCollision\<close> and \<open>Disabled\<close> set and \<open>HasMine\<close> cleared; and each
  player's \<open>remainingMines\<close> goes down by the number of positions in both lists, stopping
  at 0.
\<close>

theorem collisions_symmetric:
  assumes "Board_inv b"
    and "distinct (currentMines p1)" and "distinct (currentMines p2)"
    and "\<forall>m \<in> set (currentMines p1). isValidPosition b (column m) (row m)"
    and "\<forall>m \<in> set (currentMines p2). isValidPosition b (column m) (row m)"
    and "detectAndRemoveCollisions p1 p2 b = (p1', p2', b', cols)"
  shows "currentMines p1' = filter (\<lambda>m. m \<notin> set (currentMines p2)) (currentMines p1) \<and>
         currentMines p2' = filter (\<lambda>m. m \<notin> set (currentMines p1)) (currentMines p2) \<and>
         set (currentMines p1') = set (currentMines p1) - set (currentMines p2) \<and>
         set (currentMines p2') = set (currentMines p2) - set (currentMines p1) \<and>
         (\<forall>m \<in> set (currentMines p1) \<inter> set (currentMines p2).
            \<exists>s. getCellStatus b' (column m) (row m) = Inr s \<and>
                hasFlag s HadCollision \<and> hasFlag s Disabled \<and> \<not> hasFlag s HasMine) \<and>
         unat (remainingMines p1') =
           unat (remainingMines p1) - card (set (currentMines p1) \<inter> set (currentMines p2)) \<and>
         unat (remainingMines p2') =
           unat (remainingMines p2) - card (set (currentMines p1) \<inter> set (currentMines p2))"
proof -
  note e = detectAndRemoveCollisions_eq [OF assms(6)]
  let ?m1 = "currentMines p1" and ?m2 = "currentMines p2"
  let ?k = "card (set ?m1 \<inter> set ?m2)"
  have k1: "length (filter (\<lambda>m. m \<in> set ?m2) ?m1) = ?k"
    using assms(2) by (simp add: distinct_length_filter Int_commute)
  have k2: "length (filter (\<lambda>m. m \<in> set ?m1) ?m2) = ?k"
    using assms(3) by (simp add: distinct_length_filter Int_commute)
  have "?k \<le> length ?m1"
    using k1 length_filter_le [of "\<lambda>m. m \<in> set ?m2" ?m1] by simp
  also have "\<dots> \<le> 16"
    using assms(1,2,4) by (rule valid_mines_length)
  finally have "?k \<le> unat (16 :: u32)" by simp
  then have u: "unat (of_nat ?k :: u32) = ?k" by (rule le_unat_uoi)
  have r1: "unat (remainingMines p1') = unat (remainingMines p1) - ?k"
    unfolding e(5) k1 unat_floored_sub u ..
  have r2: "unat (remainingMines p2') = unat (remainingMines p2) - ?k"
    unfolding e(6) k2 unat_floored_sub u ..
  have inv': "Board_inv b'"
    using detectAndRemoveCollisions_persists [OF assms(1,6)] by (rule persists_inv)
  have cells: "\<exists>s. getCellStatus b' (column m) (row m) = Inr s \<and>
                hasFlag s HadCollision \<and> hasFlag s Disabled \<and> \<not> hasFlag s HasMine"
    if m: "m \<in> set ?m1 \<inter> set ?m2" for m
  proof -
    from m assms(4) have v: "isValidPosition b (column m) (row m)" by auto
    with detectAndRemoveCollisions_persists [OF assms(1,6)]
    have v': "isValidPosition b' (column m) (row m)" by (simp add: persists_valid)
    have sm: "\<lparr>column = column m, row = row m\<rparr> = m" by (cases m) simp
    note removeCollidingMines_loop_cells [OF assms(1) v, of ?m1 ?m2 "[]" "[]", unfolded sm]
    with m have "cellAt b' (column m) (row m) = markCollision (cellAt b (column m) (row m))"
      unfolding e(4) by simp
    with getCellStatus_valid [OF inv' v'] show ?thesis
      by (simp add: hasFlag_markCollision)
  qed
  from e(1,2) r1 r2 cells show ?thesis by auto
qed

theorem collisions_symmetric_witness:
  "Board_inv \<lparr>width = 3, height = 3, grid = [[2, 0, 0], [0, 2, 0], [2, 0, 0]]\<rparr> \<and>
   detectAndRemoveCollisions
     \<lparr>isHuman = True, name = ''A'', remainingMines = 2,
        currentMines = [\<lparr>column = 0, row = 0\<rparr>, \<lparr>column = 1, row = 1\<rparr>], currentGuesses = []\<rparr>
     \<lparr>isHuman = True, name = ''B'', remainingMines = 2,
        currentMines = [\<lparr>column = 1, row = 1\<rparr>, \<lparr>column = 2, row = 0\<rparr>], currentGuesses = []\<rparr>
     \<lparr>width = 3, height = 3, grid = [[2, 0, 0], [0, 2, 0], [2, 0, 0]]\<rparr>
   = (\<lparr>isHuman = True, name = ''A'', remainingMines = 1,
        currentMines = [\<lparr>column = 0, row = 0\<rparr>], currentGuesses = []\<rparr>,
      \<lparr>isHuman = True, name = ''B'', remainingMines = 1,
        currentMines = [\<lparr>column = 2, row = 0\<rparr>], currentGuesses = []\<rparr>,
      \<lparr>width = 3, height = 3, grid = [[2, 0, 0], [0, 17, 0], [2, 0, 0]]\<rparr>,
      [\<lparr>column = 1, row = 1\<rparr>]) \<and>
   unat (1 :: u32) = unat (2 :: u32)
      - card (set [\<lparr>column = 0, row = 0\<rparr>, \<lparr>column = 1, row = (1 :: u32)\<rparr>]
              \<inter> set [\<lparr>column = 1, row = 1\<rparr>, \<lparr>column = 2, row = (0 :: u32)\<rparr>]) \<and>
   (\<exists>s. getCellStatus \<lparr>width = 3, height = 3, grid = [[2, 0, 0], [0, 17, 0], [2, 0, 0]]\<rparr> 1 1
          = Inr s \<and>
        hasFlag s HadCollision \<and> hasFlag s Disabled \<and> \<not> hasFlag s HasMine)"
proof -
  have inv: "Board_inv \<lparr>width = 3, height = 3, grid = [[2, 0, 0], [0, 2, 0], [2, 0, 0]]\<rparr>"
    by (simp add: Board_inv_def k_defs)
  have run: "detectAndRemoveCollisions
     \<lparr>isHuman = True, name = ''A'', remainingMines = 2,
        currentMines = [\<lparr>column = 0, row = 0\<rparr>, \<lparr>column = 1, row = 1\<rparr>], currentGuesses = []\<rparr>
     \<lparr>isHuman = True, name = ''B'', remainingMines = 2,
        currentMines = [\<lparr>column = 1, row = 1\<rparr>, \<lparr>column = 2, row = 0\<rparr>], currentGuesses = []\<rparr>
     \<lparr>width = 3, height = 3, grid = [[2, 0, 0], [0, 2, 0], [2, 0, 0]]\<rparr>
   = (\<lparr>isHuman = True, name = ''A'', remainingMines = 1,
        currentMines = [\<lparr>column = 0, row = 0\<rparr>], currentGuesses = []\<rparr>,
      \<lparr>isHuman = True, name = ''B'', remainingMines = 1,
        currentMines = [\<lparr>column = 2, row = 0\<rparr>], currentGuesses = []\<rparr>,
      \<lparr>width = 3, height = 3, grid = [[2, 0, 0], [0, 17, 0], [2, 0, 0]]\<rparr>,
      [\<lparr>column = 1, row = 1\<rparr>])"
    by code_simp
  from collisions_symmetric [OF inv _ _ _ _ run] inv run
  show ?thesis
    by (simp add: isValidPosition_def)
qed

text \<open>
  C4: \<^verbatim>\<open>isValidPosition\<close> holds exactly when the column is below the width and the row
  below the height. Outside that range \<^verbatim>\<open>getCellStatus\<close> returns the zero status,
  \<^verbatim>\<open>isDisabled\<close> returns false, both without an exception, and \<^verbatim>\<open>safeCellAccess\<close>
  leaves the board as it is, whatever the callback.
\<close>

theorem Board_bounds_contract:
  "(isValidPosition b c r \<longleftrightarrow> c < width b \<and> r < height b) \<and>
   (\<not> (c < width b \<and> r < height b) \<longrightarrow>
      getCellStatus b c r = Inr FlagNone \<and>
      isDisabled b c r = Inr False \<and>
      safeCellAccess b c r f = b)"
  by (simp add: isValidPosition_def getCellStatus_def isDisabled_def safeCellAccess_def)

theorem Board_bounds_contract_witness:
  "\<not> ((2 :: u32) < width (Board_init 2 3) \<and> (1 :: u32) < height (Board_init 2 3)) \<and>
   getCellStatus (Board_init 2 3) 2 1 = Inr FlagNone \<and>
   isDisabled (Board_init 2 3) 2 1 = Inr False \<and>
   safeCellAccess (Board_init 2 3) 2 1 markMine = Board_init 2 3"
  using Board_bounds_contract [of "Board_init 2 3" 2 1 markMine]
  by (simp add: Board_init_def Let_def k_defs)

text \<open>
  C5: \<^verbatim>\<open>checkGameEnd\<close> announces a draw exactly when both players have no mines left;
  when exactly one has none it announces the other player as the winner; otherwise it
  announces nothing and the game goes on. The round loop leaves only after a round whose
  check says the game is over, it leaves at the first such round, and on a constructed
  board no exception leaves it.
\<close>

theorem checkGameEnd_terminal:
  "(snd (checkGameEnd p1 p2) = Some DrawNoMines \<longleftrightarrow>
      remainingMines p1 = 0 \<and> remainingMines p2 = 0) \<and>
   (remainingMines p1 = 0 \<and> remainingMines p2 = 0 \<longrightarrow>
      checkGameEnd p1 p2 = (True, Some DrawNoMines)) \<and>
   (remainingMines p1 = 0 \<and> remainingMines p2 \<noteq> 0 \<longrightarrow>
      checkGameEnd p1 p2 = (True, Some (WinTheGame (name p2)))) \<and>
   (remainingMines p1 \<noteq> 0 \<and> remainingMines p2 = 0 \<longrightarrow>
      checkGameEnd p1 p2 = (True, Some (WinTheGame (name p1)))) \<and>
   (remainingMines p1 \<noteq> 0 \<and> remainingMines p2 \<noteq> 0 \<longrightarrow>
      checkGameEnd p1 p2 = (False, None)) \<and>
   (runMainLoop n p1 p2 b io = Returned (p1', p2', b', io') \<longrightarrow>
      fst (checkGameEnd p1' p2')) \<and>
   (playRound p1 p2 b io = Returned (q1, q2, b1, io1) \<longrightarrow>
      runMainLoop (Suc n) p1 p2 b io =
        (if fst (checkGameEnd q1 q2) then Returned (q1, q2, b1, io1)
         else runMainLoop n q1 q2 b1 io1)) \<and>
   (Board_inv b \<longrightarrow> runMainLoop n p1 p2 b io \<noteq> Threw e)"
proof -
  have loop: "runMainLoop n p1 p2 b io = Returned (p1', p2', b', io')
                \<Longrightarrow> fst (checkGameEnd p1' p2')"
  proof (induction n arbitrary: p1 p2 b io)
    case 0
    then show ?case by simp
  next
    case (Suc n)
    from Suc.prems obtain p1a p2a b1 io1 where
      r: "playRound p1 p2 b io = Returned (p1a, p2a, b1, io1)"
      by (auto split: outcome.splits)
    show ?case
    proof (cases "fst (checkGameEnd p1a p2a)")
      case True
      with Suc.prems r show ?thesis by (auto simp: Let_def)
    next
      case False
      with Suc.prems r have "runMainLoop n p1a p2a b1 io1 = Returned (p1', p2', b', io')"
        by (simp add: Let_def)
      then show ?thesis by (rule Suc.IH)
    qed
  qed
  have check: "(snd (checkGameEnd p1 p2) = Some DrawNoMines \<longleftrightarrow>
      remainingMines p1 = 0 \<and> remainingMines p2 = 0) \<and>
   (remainingMines p1 = 0 \<and> remainingMines p2 = 0 \<longrightarrow>
      checkGameEnd p1 p2 = (True, Some DrawNoMines)) \<and>
   (remainingMines p1 = 0 \<and> remainingMines p2 \<noteq> 0 \<longrightarrow>
      checkGameEnd p1 p2 = (True, Some (WinTheGame (name p2)))) \<and>
   (remainingMines p1 \<noteq> 0 \<and> remainingMines p2 = 0 \<longrightarrow>
      checkGameEnd p1 p2 = (True, Some (WinTheGame (name p1)))) \<and>
   (remainingMines p1 \<noteq> 0 \<and> remainingMines p2 \<noteq> 0 \<longrightarrow>
      checkGameEnd p1 p2 = (False, None))"
    by (simp add: checkGameEnd_def)
  have step: "playRound p1 p2 b io = Returned (q1, q2, b1, io1) \<longrightarrow>
      runMainLoop (Suc n) p1 p2 b io =
        (if fst (checkGameEnd q1 q2) then Returned (q1, q2, b1, io1)
         else runMainLoop n q1 q2 b1 io1)"
    by (simp add: Let_def)
  from loop check step runMainLoop_no_throw [of b n p1 p2 io e] show ?thesis
    by blast
qed

theorem checkGameEnd_terminal_witness:
  "checkGameEnd
     \<lparr>isHuman = True, name = ''A'', remainingMines = 0, currentMines = [], currentGuesses = []\<rparr>
     \<lparr>isHuman = True, name = ''B'', remainingMines = 0, currentMines = [], currentGuesses = []\<rparr>
   = (True, Some DrawNoMines) \<and>
   checkGameEnd
     \<lparr>isHuman = True, name = ''A'', remainingMines = 0, currentMines = [], currentGuesses = []\<rparr>
     \<lparr>isHuman = True, name = ''B'', remainingMines = 2, currentMines = [], currentGuesses = []\<rparr>
   = (True, Some (WinTheGame ''B'')) \<and>
   checkGameEnd
     \<lparr>isHuman = True, name = ''A'', remainingMines = 1, currentMines = [], currentGuesses = []\<rparr>
     \<lparr>isHuman = True, name = ''B'', remainingMines = 0, currentMines = [], currentGuesses = []\<rparr>
   = (True, Some (WinTheGame ''A'')) \<and>
   checkGameEnd
     \<lparr>isHuman = True, name = ''A'', remainingMines = 1, currentMines = [], currentGuesses = []\<rparr>
     \<lparr>isHuman = True, name = ''B'', remainingMines = 2, currentMines = [], currentGuesses = []\<rparr>
   = (False, None) \<and>
   Board_inv (Board_init 2 2) \<and>
   runMainLoop 2
     \<lparr>isHuman = True, name = ''A'', remainingMines = 1, currentMines = [], currentGuesses = []\<rparr>
     \<lparr>isHuman = False, name = ''CPU'', remainingMines = 1, currentMines = [], currentGuesses = []\<rparr>
     (Board_init 2 2)
     \<lparr>keyboard = [Some (1, 1), Some (2, 2), Some (1, 2), Some (1, 2), Some (2, 1)],
      rands = [5, 2, 6, 3, 4, 7, 1, 0, 1, 0, 1, 1]\<rparr>
   = Returned
       (\<lparr>isHuman = True, name = ''A'', remainingMines = 0, currentMines = [],
          currentGuesses = []\<rparr>,
        \<lparr>isHuman = False, name = ''CPU'', remainingMines = 0, currentMines = [],
          currentGuesses = []\<rparr>,
        \<lparr>width = 2, height = 2, grid = [[0, 5], [17, 5]]\<rparr>,
        \<lparr>keyboard = [], rands = [1, 0, 1, 1]\<rparr>) \<and>
   fst (checkGameEnd
       \<lparr>isHuman = True, name = ''A'', remainingMines = 0, currentMines = [],
          currentGuesses = []\<rparr>
        \<lparr>isHuman = False, name = ''CPU'', remainingMines = 0, currentMines = [],
          currentGuesses = []\<rparr>)"
proof -
  have run: "runMainLoop 2
     \<lparr>isHuman = True, name = ''A'', remainingMines = 1, currentMines = [], currentGuesses = []\<rparr>
     \<lparr>isHuman = False, name = ''CPU'', remainingMines = 1, currentMines = [], currentGuesses = []\<rparr>
     (Board_init 2 2)
     \<lparr>keyboard = [Some (1, 1), Some (2, 2), Some (1, 2), Some (1, 2), Some (2, 1)],
      rands = [5, 2, 6, 3, 4, 7, 1, 0, 1, 0, 1, 1]\<rparr>
   = Returned
       (\<lparr>isHuman = True, name = ''A'', remainingMines = 0, currentMines = [],
          currentGuesses = []\<rparr>,
        \<lparr>isHuman = False, name = ''CPU'', remainingMines = 0, currentMines = [],
          currentGuesses = []\<rparr>,
        \<lparr>width = 2, height = 2, grid = [[0, 5], [17, 5]]\<rparr>,
        \<lparr>keyboard = [], rands = [1, 0, 1, 1]\<rparr>)"
    by code_simp
  have inv: "Board_inv (Board_init 2 2)" by (rule Board_init_inv)
  note c = checkGameEnd_terminal
  from run inv
    c [where ?p1.0 = "\<lparr>isHuman = True, name = ''A'', remainingMines = 0, currentMines = [], currentGuesses = []\<rparr>"
         and ?p2.0 = "\<lparr>isHuman = True, name = ''B'', remainingMines = 0, currentMines = [], currentGuesses = []\<rparr>"]
    c [where ?p1.0 = "\<lparr>isHuman = True, name = ''A'', remainingMines = 0, currentMines = [], currentGuesses = []\<rparr>"
         and ?p2.0 = "\<lparr>isHuman = True, name = ''B'', remainingMines = 2, currentMines = [], currentGuesses = []\<rparr>"]
    c [where ?p1.0 = "\<lparr>isHuman = True, name = ''A'', remainingMines = 1, currentMines = [], currentGuesses = []\<rparr>"
         and ?p2.0 = "\<lparr>isHuman = True, name = ''B'', remainingMines = 0, currentMines = [], currentGuesses = []\<rparr>"]
    c [where ?p1.0 = "\<lparr>isHuman = True, name = ''A'', remainingMines = 1, currentMines = [], currentGuesses = []\<rparr>"
         and ?p2.0 = "\<lparr>isHuman = True, name = ''B'', remainingMines = 2, currentMines = [], currentGuesses = []\<rparr>"]
    c [where n = 2 and b = "Board_init 2 2"
         and ?p1.0 = "\<lparr>isHuman = True, name = ''A'', remainingMines = 1, currentMines = [], currentGuesses = []\<rparr>"
         and ?p2.0 = "\<lparr>isHuman = False, name = ''CPU'', remainingMines = 1, currentMines = [], currentGuesses = []\<rparr>",
       THEN conjunct2, THEN conjunct2, THEN conjunct2, THEN conjunct2, THEN conjunct2,
       THEN conjunct1, THEN mp, OF run]
  show ?thesis by simp
qed

text \<open>
  C6: the number of hits does not depend on the order of the attack list nor on the
  order of the defender's mine list.
\<close>

theorem countHits_permutation_invariant:
  assumes "mset attacks' = mset attacks"
    and "mset (currentMines defender') = mset (currentMines defender)"
  shows "countHits defender' attacks' = countHits defender attacks"
proof -
  from assms(2) have "set (currentMines defender') = set (currentMines defender)"
    by (rule mset_eq_setD)
  moreover
  have "length (filter P attacks') = length (filter P attacks)" for P
  proof -
    have "mset (filter P attacks') = mset (filter P attacks)"
      using assms(1) by simp
    then show ?thesis by (rule mset_eq_length)
  qed
  ultimately show ?thesis by (simp add: countHits_eq)
qed

theorem countHits_permutation_invariant_witness:
  "mset [\<lparr>column = 2, row = 2\<rparr>, \<lparr>column = 0, row = 1\<rparr>, \<lparr>column = 1, row = 1\<rparr>]
     = mset [\<lparr>column = 0, row = 1\<rparr>, \<lparr>column = 1, row = 1\<rparr>, \<lparr>column = 2, row = 2\<rparr>] \<and>
   countHits \<lparr>isHuman = True, name = ''A'', remainingMines = 2,
               currentMines = [\<lparr>column = 1, row = 1\<rparr>, \<lparr>column = 0, row = 1\<rparr>],
               currentGuesses = []\<rparr>
     [\<lparr>column = 2, row = 2\<rparr>, \<lparr>column = 0, row = 1\<rparr>, \<lparr>column = 1, row = 1\<rparr>]
   = countHits \<lparr>isHuman = True, name = ''A'', remainingMines = 2,
               currentMines = [\<lparr>column = 0, row = 1\<rparr>, \<lparr>column = 1, row = 1\<rparr>],
               currentGuesses = []\<rparr>
     [\<lparr>column = 0, row = 1\<rparr>, \<lparr>column = 1, row = 1\<rparr>, \<lparr>column = 2, row = 2\<rparr>] \<and>
   countHits \<lparr>isHuman = True, name = ''A'', remainingMines = 2,
               currentMines = [\<lparr>column = 0, row = 1\<rparr>, \<lparr>column = 1, row = 1\<rparr>],
               currentGuesses = []\<rparr>
     [\<lparr>column = 0, row = 1\<rparr>, \<lparr>column = 1, row = 1\<rparr>, \<lparr>column = 2, row = 2\<rparr>] = 2"
proof -
  have a: "mset [\<lparr>column = 2, row = 2\<rparr>, \<lparr>column = 0, row = 1\<rparr>, \<lparr>column = 1, row = 1\<rparr>]
     = mset [\<lparr>column = 0, row = 1\<rparr>, \<lparr>column = 1, row = 1\<rparr>, \<lparr>column = 2, row = (2 :: u32)\<rparr>]"
    by (simp add: add_mset_commute)
  have m: "mset (currentMines \<lparr>isHuman = True, name = ''A'', remainingMines = 2,
               currentMines = [\<lparr>column = 1, row = 1\<rparr>, \<lparr>column = 0, row = 1\<rparr>],
               currentGuesses = []\<rparr>)
     = mset (currentMines \<lparr>isHuman = True, name = ''A'', remainingMines = 2,
               currentMines = [\<lparr>column = 0, row = 1\<rparr>, \<lparr>column = 1, row = 1\<rparr>],
               currentGuesses = []\<rparr>)"
    by (simp add: add_mset_commute)
  have v: "countHits \<lparr>isHuman = True, name = ''A'', remainingMines = 2,
               currentMines = [\<lparr>column = 0, row = 1\<rparr>, \<lparr>column = 1, row = 1\<rparr>],
               currentGuesses = []\<rparr>
     [\<lparr>column = 0, row = 1\<rparr>, \<lparr>column = 1, row = 1\<rparr>, \<lparr>column = 2, row = 2\<rparr>] = 2"
    by (simp add: countHits_def samePosition_def)
  from countHits_permutation_invariant [OF a m] a v show ?thesis by simp
qed

text \<open>
  C7: \<^verbatim>\<open>clearMines\<close> changes no flag of any cell other than \<open>HasMine\<close>, which it
  clears. For positions on the board that carry \<open>HasMine\<close>, clearing and then setting
  \<open>HasMine\<close> on them again gives those cells back as they were and leaves the other cells
  as \<^verbatim>\<open>clearMines\<close> left them; when the positions are all the cells that carried
  \<open>HasMine\<close>, the board is the one before. Placing mines with \<^verbatim>\<open>collectPositions\<close> is
  this setting of \<open>HasMine\<close> on the positions it returns.
\<close>

theorem clearMines_roundtrip:
  assumes "Board_inv b"
    and "\<forall>p \<in> set ps. isValidPosition b (column p) (row p) \<and>
           (\<exists>s. getCellStatus b (column p) (row p) = Inr s \<and> hasFlag s HasMine)"
  shows "(\<forall>c r s. getCellStatus b c r = Inr s \<longrightarrow>
            getCellStatus (clearMines b) c r = Inr (s AND NOT HasMine)) \<and>
         (\<forall>c r s. getCellStatus b c r = Inr s \<longrightarrow>
            getCellStatus (setHasMine ps (clearMines b)) c r =
              Inr (if \<lparr>column = c, row = r\<rparr> \<in> set ps then s else s AND NOT HasMine)) \<and>
         (set (mineLayout b) \<subseteq> set ps \<longrightarrow> setHasMine ps (clearMines b) = b) \<and>
         (collectPositions player cnt (clearMines b) True io = Returned (ps, b', io') \<longrightarrow>
            b' = setHasMine ps (clearMines b))"
proof -
  let ?b1 = "clearMines b" and ?b2 = "setHasMine ps (clearMines b)"
  have p1: "persists b ?b1" using assms(1) by (rule clearMines_persists)
  then have inv1: "Board_inv ?b1" by (rule persists_inv)
  then have p2: "persists ?b1 ?b2" by (rule setHasMine_persists)
  then have inv2: "Board_inv ?b2" by (rule persists_inv)
  have mines: "hasFlag (cellAt b c r) HasMine"
    if "\<lparr>column = c, row = r\<rparr> \<in> set ps" for c r
    using that assms by (fastforce simp: getCellStatus_valid)
  have valid_ps: "isValidPosition b c r" if "\<lparr>column = c, row = r\<rparr> \<in> set ps" for c r
    using that assms(2) by fastforce
  have cell1: "cellAt ?b1 c r = cellAt b c r AND NOT HasMine" if "isValidPosition b c r" for c r
    using clearMines_cells [OF assms(1) that] by (simp add: unmarkMine_def)
  have cell2: "cellAt ?b2 c r =
      (if \<lparr>column = c, row = r\<rparr> \<in> set ps then cellAt b c r
       else cellAt b c r AND NOT HasMine)"
    if v: "isValidPosition b c r" for c r
  proof -
    from v p1 have "isValidPosition ?b1 c r" by (simp add: persists_valid)
    from setHasMine_cells [OF inv1 this, of ps] clearMines_cells [OF assms(1) v] mines [of c r]
    have "cellAt ?b2 c r =
      (if \<lparr>column = c, row = r\<rparr> \<in> set ps then cellAt b c r
       else unmarkMine (cellAt b c r))"
      by (auto simp: markMine_unmarkMine markMine_hasFlag)
    then show ?thesis by (simp add: unmarkMine_def)
  qed
  have 1: "getCellStatus ?b1 c r = Inr (s AND NOT HasMine)"
    if s: "getCellStatus b c r = Inr s" for c r s
  proof (cases "isValidPosition b c r")
    case True
    with p1 have "isValidPosition ?b1 c r" by (simp add: persists_valid)
    with True s cell1 [OF True] assms(1) inv1 show ?thesis
      by (simp add: getCellStatus_valid)
  next
    case False
    with p1 have "\<not> isValidPosition ?b1 c r" by (simp add: persists_valid)
    with False s show ?thesis
      by (simp add: getCellStatus_invalid) (auto simp: FlagNone_def)
  qed
  have 2: "getCellStatus ?b2 c r =
             Inr (if \<lparr>column = c, row = r\<rparr> \<in> set ps then s else s AND NOT HasMine)"
    if s: "getCellStatus b c r = Inr s" for c r s
  proof (cases "isValidPosition b c r")
    case True
    with p1 p2 have "isValidPosition ?b2 c r" by (simp add: persists_valid)
    with True s cell2 [OF True] assms(1) inv2 show ?thesis
      by (simp add: getCellStatus_valid)
  next
    case False
    with p1 p2 have "\<not> isValidPosition ?b2 c r" by (simp add: persists_valid)
    moreover from False valid_ps have "\<lparr>column = c, row = r\<rparr> \<notin> set ps" by blast
    ultimately show ?thesis using False s
      by (simp add: getCellStatus_invalid) (auto simp: FlagNone_def)
  qed
  have 3: "?b2 = b" if all: "set (mineLayout b) \<subseteq> set ps"
  proof (rule board_eqI [OF assms(1) inv2])
    show "width ?b2 = width b" "height ?b2 = height b"
      using p1 p2 by (simp_all add: persists_def)
  next
    fix c r assume v: "isValidPosition b c r"
    show "cellAt ?b2 c r = cellAt b c r"
    proof (cases "\<lparr>column = c, row = r\<rparr> \<in> set ps")
      case True
      with cell2 [OF v] show ?thesis by simp
    next
      case False
      with all have "\<lparr>column = c, row = r\<rparr> \<notin> set (mineLayout b)" by blast
      with v have "\<not> hasFlag (cellAt b c r) HasMine" by (simp add: mineLayout_iff)
      then have "unmarkMine (cellAt b c r) = cellAt b c r" by (rule unmarkMine_no_mine)
      with False cell2 [OF v] show ?thesis by (simp add: unmarkMine_def)
    qed
  qed
  have 4: "b' = ?b2"
    if "collectPositions player cnt (clearMines b) True io = Returned (ps, b', io')"
    using collectPositions_loop_board [OF that [unfolded collectPositions_def]] by simp
  from 1 2 3 4 show ?thesis by blast
qed


theorem clearMines_roundtrip_witness:
  "Board_inv \<lparr>width = 3, height = 3, grid = [[2, 5, 0], [0, 17, 0], [2, 0, 0]]\<rparr> \<and>
   set (mineLayout \<lparr>width = 3, height = 3, grid = [[2, 5, 0], [0, 17, 0], [2, 0, 0]]\<rparr>)
     \<subseteq> set [\<lparr>column = 2, row = 0\<rparr>, \<lparr>column = 0, row = 0\<rparr>] \<and>
   clearMines \<lparr>width = 3, height = 3, grid = [[2, 5, 0], [0, 17, 0], [2, 0, 0]]\<rparr>
     = \<lparr>width = 3, height = 3, grid = [[0, 5, 0], [0, 17, 0], [0, 0, 0]]\<rparr> \<and>
   collectPositions
     \<lparr>isHuman = True, name = ''A'', remainingMines = 2, currentMines = [], currentGuesses = []\<rparr>
     2 (clearMines \<lparr>width = 3, height = 3, grid = [[2, 5, 0], [0, 17, 0], [2, 0, 0]]\<rparr>) True
     \<lparr>keyboard = [Some (3, 1), Some (2, 2), Some (1, 1)], rands = []\<rparr>
   = Returned ([\<lparr>column = 2, row = 0\<rparr>, \<lparr>column = 0, row = 0\<rparr>],
       \<lparr>width = 3, height = 3, grid = [[2, 5, 0], [0, 17, 0], [2, 0, 0]]\<rparr>,
       \<lparr>keyboard = [], rands = []\<rparr>) \<and>
   setHasMine [\<lparr>column = 2, row = 0\<rparr>, \<lparr>column = 0, row = 0\<rparr>]
     (clearMines \<lparr>width = 3, height = 3, grid = [[2, 5, 0], [0, 17, 0], [2, 0, 0]]\<rparr>)
     = \<lparr>width = 3, height = 3, grid = [[2, 5, 0], [0, 17, 0], [2, 0, 0]]\<rparr>"
proof -
  let ?B = "\<lparr>width = 3, height = 3, grid = [[2, 5, 0], [0, 17, 0], [2, 0, 0]]\<rparr>"
  let ?ps = "[\<lparr>column = 2, row = 0\<rparr>, \<lparr>column = 0, row = (0 :: u32)\<rparr>]"
  have inv: "Board_inv ?B"
    by (simp add: Board_inv_def k_defs)
  have mines: "\<forall>p \<in> set ?ps. isValidPosition ?B (column p) (row p) \<and>
           (\<exists>s. getCellStatus ?B (column p) (row p) = Inr s \<and> hasFlag s HasMine)"
    by (simp add: isValidPosition_def getCellStatus_def vector_at_def hasFlag_def flag_defs)
  have layout: "set (mineLayout ?B) \<subseteq> set ?ps"
    by code_simp
  have clear: "clearMines ?B
     = \<lparr>width = 3, height = 3, grid = [[0, 5, 0], [0, 17, 0], [0, 0, 0]]\<rparr>"
    by code_simp
  have run: "collectPositions
     \<lparr>isHuman = True, name = ''A'', remainingMines = 2, currentMines = [], currentGuesses = []\<rparr>
     2 (clearMines ?B) True
     \<lparr>keyboard = [Some (3, 1), Some (2, 2), Some (1, 1)], rands = []\<rparr>
   = Returned (?ps, ?B, \<lparr>keyboard = [], rands = []\<rparr>)"
    by code_simp
  from clearMines_roundtrip [OF inv mines, THEN conjunct2, THEN conjunct2, THEN conjunct1,
      THEN mp, OF layout] inv layout clear run
  show ?thesis by simp
qed

text \<open>
  C8: once \<open>Disabled\<close>, \<open>WasGuessed\<close>, \<open>SelfDetonated\<close> or \<open>HadCollision\<close> is set on a cell
  it stays set through the marking of a placed mine, \<^verbatim>\<open>clearMines\<close>, collision
  resolution, self-detonation, the disabling of guessed cells, the collection of positions,
  a whole round and a whole game; the only bit of a cell that any of them removes is
  \<open>HasMine\<close>.
\<close>

theorem flags_persist:
  assumes "Board_inv b"
  shows "flagsKept b (safeCellAccess b c r markMine) \<and>
         flagsKept b (clearMines b) \<and>
         flagsKept b (fst (snd (snd (detectAndRemoveCollisions p1 p2 b)))) \<and>
         flagsKept b (snd (snd (resolveSelfDetonation p b))) \<and>
         flagsKept b (disableGuessedPositions guesses b) \<and>
         (collectPositions p cnt b mark io = Returned (target, b1, io1) \<longrightarrow> flagsKept b b1) \<and>
         (playRound p1 p2 b io = Returned (p1', p2', b2, io2) \<longrightarrow> flagsKept b b2) \<and>
         (runMainLoop n p1 p2 b io = Returned (p1'', p2'', b3, io3) \<longrightarrow> flagsKept b b3)"
proof -
  note k = persists_flagsKept [OF assms]
  have 1: "flagsKept b (safeCellAccess b c r markMine)"
    using assms by (intro k safeCellAccess_persists keepsOtherFlags_callbacks)
  have 2: "flagsKept b (clearMines b)"
    using assms by (intro k clearMines_persists)
  have 3: "flagsKept b (fst (snd (snd (detectAndRemoveCollisions p1 p2 b))))"
  proof -
    obtain q1 q2 bd cols where e: "detectAndRemoveCollisions p1 p2 b = (q1, q2, bd, cols)"
      by (cases "detectAndRemoveCollisions p1 p2 b") auto
    from detectAndRemoveCollisions_persists [OF assms e] e show ?thesis
      by (simp add: k)
  qed
  have 4: "flagsKept b (snd (snd (resolveSelfDetonation p b)))"
  proof -
    obtain hits q bs where e: "resolveSelfDetonation p b = (hits, q, bs)"
      by (cases "resolveSelfDetonation p b") auto
    from resolveSelfDetonation_persists [OF assms e] e show ?thesis
      by (simp add: k)
  qed
  have 5: "flagsKept b (disableGuessedPositions guesses b)"
    using assms by (intro k disableGuessedPositions_persists)
  have 6: "flagsKept b b1" if "collectPositions p cnt b mark io = Returned (target, b1, io1)"
    using collectPositions_persists [OF assms that] by (rule k)
  have 7: "flagsKept b b2" if "playRound p1 p2 b io = Returned (p1', p2', b2, io2)"
    using playRound_persists [OF assms that] by (rule k)
  have 8: "flagsKept b b3" if "runMainLoop n p1 p2 b io = Returned (p1'', p2'', b3, io3)"
    using runMainLoop_persists [OF assms that] by (rule k)
  from 1 2 3 4 5 6 7 8 show ?thesis by blast
qed

theorem flags_persist_witness:
  "Board_inv \<lparr>width = 3, height = 3, grid = [[13, 2, 0], [2, 2, 0], [0, 5, 5]]\<rparr> \<and>
   playRound
     \<lparr>isHuman = True, name = ''A'', remainingMines = 1, currentMines = [], currentGuesses = []\<rparr>
     \<lparr>isHuman = True, name = ''B'', remainingMines = 1, currentMines = [], currentGuesses = []\<rparr>
     \<lparr>width = 3, height = 3, grid = [[13, 2, 0], [2, 2, 0], [0, 5, 5]]\<rparr>
     \<lparr>keyboard = [Some (1, 1), Some (1, 2), Some (2, 1), Some (2, 1), Some (3, 1)], rands = []\<rparr>
   = Returned
      (\<lparr>isHuman = True, name = ''A'', remainingMines = 1,
         currentMines = [\<lparr>column = 0, row = 1\<rparr>],
         currentGuesses = [\<lparr>column = 1, row = 0\<rparr>]\<rparr>,
       \<lparr>isHuman = True, name = ''B'', remainingMines = 0,
         currentMines = [\<lparr>column = 1, row = 0\<rparr>],
         currentGuesses = [\<lparr>column = 2, row = 0\<rparr>]\<rparr>,
       \<lparr>width = 3, height = 3, grid = [[13, 2, 0], [7, 0, 0], [5, 5, 5]]\<rparr>,
       \<lparr>keyboard = [], rands = []\<rparr>) \<and>
   flagsKept \<lparr>width = 3, height = 3, grid = [[13, 2, 0], [2, 2, 0], [0, 5, 5]]\<rparr>
     \<lparr>width = 3, height = 3, grid = [[13, 2, 0], [7, 0, 0], [5, 5, 5]]\<rparr> \<and>
   flagsKept \<lparr>width = 3, height = 3, grid = [[13, 2, 0], [2, 2, 0], [0, 5, 5]]\<rparr>
     (clearMines \<lparr>width = 3, height = 3, grid = [[13, 2, 0], [2, 2, 0], [0, 5, 5]]\<rparr>)"
proof -
  have inv: "Board_inv \<lparr>width = 3, height = 3, grid = [[13, 2, 0], [2, 2, 0], [0, 5, 5]]\<rparr>"
    by (simp add: Board_inv_def k_defs)
  have run: "playRound
     \<lparr>isHuman = True, name = ''A'', remainingMines = 1, currentMines = [], currentGuesses = []\<rparr>
     \<lparr>isHuman = True, name = ''B'', remainingMines = 1, currentMines = [], currentGuesses = []\<rparr>
     \<lparr>width = 3, height = 3, grid = [[13, 2, 0], [2, 2, 0], [0, 5, 5]]\<rparr>
     \<lparr>keyboard = [Some (1, 1), Some (1, 2), Some (2, 1), Some (2, 1), Some (3, 1)], rands = []\<rparr>
   = Returned
      (\<lparr>isHuman = True, name = ''A'', remainingMines = 1,
         currentMines = [\<lparr>column = 0, row = 1\<rparr>],
         currentGuesses = [\<lparr>column = 1, row = 0\<rparr>]\<rparr>,
       \<lparr>isHuman = True, name = ''B'', remainingMines = 0,
         currentMines = [\<lparr>column = 1, row = 0\<rparr>],
         currentGuesses = [\<lparr>column = 2, row = 0\<rparr>]\<rparr>,
       \<lparr>width = 3, height = 3, grid = [[13, 2, 0], [7, 0, 0], [5, 5, 5]]\<rparr>,
       \<lparr>keyboard = [], rands = []\<rparr>)"
    by code_simp
  from flags_persist [OF inv, THEN conjunct2, THEN conjunct2, THEN conjunct2, THEN conjunct2,
      THEN conjunct2, THEN conjunct2, THEN conjunct1, THEN mp, OF run]
    flags_persist [OF inv, THEN conjunct2, THEN conjunct1] inv run
  show ?thesis by simp
qed

text \<open>
  C9: the constructor keeps a requested width or height that lies in \<open>[2,4]\<close> and replaces
  any other by 2 (a requested 5 gives 2, not 4); the dimensions of a constructed board lie
  in \<open>[2,4]\<close>, and neither the one mutating member \<^verbatim>\<open>safeCellAccess\<close> nor a whole game
  changes them.
\<close>

theorem Board_dimensions_clamped:
  "width (Board_init w h) = (if 2 \<le> w \<and> w \<le> 4 then w else 2) \<and>
   height (Board_init w h) = (if 2 \<le> h \<and> h \<le> 4 then h else 2) \<and>
   width (Board_init 5 h) = 2 \<and> height (Board_init w 5) = 2 \<and>
   2 \<le> width (Board_init w h) \<and> width (Board_init w h) \<le> 4 \<and>
   2 \<le> height (Board_init w h) \<and> height (Board_init w h) \<le> 4 \<and>
   width (safeCellAccess b c r f) = width b \<and>
   height (safeCellAccess b c r f) = height b \<and>
   (runMainLoop n p1 p2 (Board_init w h) io = Returned (p1', p2', b', io') \<longrightarrow>
      width b' = width (Board_init w h) \<and> height b' = height (Board_init w h))"
proof -
  have "width b' = width (Board_init w h) \<and> height b' = height (Board_init w h)"
    if "runMainLoop n p1 p2 (Board_init w h) io = Returned (p1', p2', b', io')"
    using runMainLoop_persists [OF Board_init_inv that] by (simp add: persists_def)
  then show ?thesis
    by (simp add: Board_init_def Let_def k_defs)
qed

theorem Board_dimensions_clamped_witness:
  "runMainLoop 3
     \<lparr>isHuman = True, name = ''A'', remainingMines = 1, currentMines = [], currentGuesses = []\<rparr>
     \<lparr>isHuman = True, name = ''B'', remainingMines = 1, currentMines = [], currentGuesses = []\<rparr>
     (Board_init 5 3) \<lparr>keyboard = [Some (1, 1), Some (1, 1)], rands = []\<rparr>
   = Returned
      (\<lparr>isHuman = True, name = ''A'', remainingMines = 0, currentMines = [], currentGuesses = []\<rparr>,
       \<lparr>isHuman = True, name = ''B'', remainingMines = 0, currentMines = [], currentGuesses = []\<rparr>,
       \<lparr>width = 2, height = 3, grid = [[17, 0, 0], [0, 0, 0]]\<rparr>,
       \<lparr>keyboard = [], rands = []\<rparr>) \<and>
   width (Board_init 5 3) = 2 \<and> height (Board_init 5 3) = 3 \<and>
   width \<lparr>width = 2, height = 3, grid = [[17, 0, 0], [0, 0, 0]]\<rparr> = width (Board_init 5 3)"
proof -
  have run: "runMainLoop 3
     \<lparr>isHuman = True, name = ''A'', remainingMines = 1, currentMines = [], currentGuesses = []\<rparr>
     \<lparr>isHuman = True, name = ''B'', remainingMines = 1, currentMines = [], currentGuesses = []\<rparr>
     (Board_init 5 3) \<lparr>keyboard = [Some (1, 1), Some (1, 1)], rands = []\<rparr>
   = Returned
      (\<lparr>isHuman = True, name = ''A'', remainingMines = 0, currentMines = [], currentGuesses = []\<rparr>,
       \<lparr>isHuman = True, name = ''B'', remainingMines = 0, currentMines = [], currentGuesses = []\<rparr>,
       \<lparr>width = 2, height = 3, grid = [[17, 0, 0], [0, 0, 0]]\<rparr>,
       \<lparr>keyboard = [], rands = []\<rparr>)"
    by code_simp
  from Board_dimensions_clamped [where w = 5 and h = 3 and n = 3 and io' = "\<lparr>keyboard = [], rands = []\<rparr>"
        and b' = "\<lparr>width = 2, height = 3, grid = [[17, 0, 0], [0, 0, 0]]\<rparr>"] run
  show ?thesis by simp
qed

text \<open>
  C10: \<^verbatim>\<open>isValidMineCount\<close> accepts the counts from 1 to 5 whatever the board, also
  5 on the 2 x 2 board with its 4 cells. The candidates of \<^verbatim>\<open>collectPositions\<close> are cells of the board that are not
  disabled, and it keeps no candidate twice: when the count asked for exceeds the number of
  such cells the loop is still running after any input whatever, so it never returns; and
  when it returns, the count was at most that number and the list holds exactly that many
  distinct cells that are not disabled.
\<close>

theorem collectPositions_needs_free_cells:
  assumes "Board_inv b"
  shows "(isValidMineCount b n \<longleftrightarrow> 1 \<le> n \<and> n \<le> 5) \<and>
         distinct (freeCells b) \<and>
         (p \<in> set (freeCells b) \<longleftrightarrow>
            isValidPosition b (column p) (row p) \<and>
            isDisabled b (column p) (row p) = Inr False) \<and>
         (length (freeCells b) < size_t_of_int cnt \<longrightarrow>
            collectPositions player cnt b mark io = StillRunning) \<and>
         (collectPositions player cnt b mark io = Returned (target, b', io') \<longrightarrow>
            size_t_of_int cnt \<le> length (freeCells b) \<and>
            length target = size_t_of_int cnt \<and>
            distinct target \<and> set target \<subseteq> set (freeCells b)) \<and>
         length (freeCells (Board_init 2 2)) = 4 \<and>
         collectPositions player 5 (Board_init 2 2) mark io = StillRunning"
proof -
  have ret: "size_t_of_int n \<le> length (freeCells bd) \<and> length t = size_t_of_int n \<and>
             distinct t \<and> set t \<subseteq> set (freeCells bd)"
    if inv: "Board_inv bd" and r: "collectPositions player n bd mark io = Returned (t, bd', io1)"
    for n bd t bd' io1
  proof -
    from collectPositions_loop_target [OF inv _ _ r [unfolded collectPositions_def]]
    have t: "distinct t" "set t \<subseteq> set (freeCells bd)" "length t = size_t_of_int n"
      by simp_all
    from t(1,2) have "length t \<le> length (freeCells bd)" by (rule distinct_length_le)
    with t show ?thesis by simp
  qed
  have run: "collectPositions player n bd mark io = StillRunning"
    if inv: "Board_inv bd" and less: "length (freeCells bd) < size_t_of_int n" for n bd
  proof (cases "collectPositions player n bd mark io")
    case (Returned x)
    obtain t bd' io1 where "x = (t, bd', io1)" by (cases x)
    with Returned ret [OF inv, of n t bd' io1] less show ?thesis by simp
  next
    case (Threw e)
    with collectPositions_loop_no_throw [OF inv, of player n "[]" mark io e] show ?thesis
      by (simp add: collectPositions_def)
  next
    case StillRunning
    then show ?thesis .
  qed
  have "collectPositions player 5 (Board_init 2 2) mark io = StillRunning"
    by (rule run [OF Board_init_inv]) (simp add: size_t_of_int_5 freeCells_Board_init_2_2)
  with ret [OF assms, of cnt target b' io'] run [OF assms, of cnt] show ?thesis
    by (simp add: isValidMineCount_def k_defs distinct_freeCells freeCells_iff
        freeCells_Board_init_2_2)
qed

theorem collectPositions_needs_free_cells_witness:
  "Board_inv (Board_init 2 2) \<and>
   isValidMineCount (Board_init 2 2) 5 \<and>
   length (freeCells (Board_init 2 2)) < size_t_of_int 5 \<and>
   collectPositions
     \<lparr>isHuman = True, name = ''A'', remainingMines = 5, currentMines = [], currentGuesses = []\<rparr>
     5 (Board_init 2 2) True
     \<lparr>keyboard = [Some (1, 1), Some (1, 2), Some (2, 1), Some (2, 2), Some (1, 1), Some (3, 3)],
      rands = []\<rparr>
   = StillRunning \<and>
   collectPositions
     \<lparr>isHuman = False, name = ''CPU'', remainingMines = 3, currentMines = [], currentGuesses = []\<rparr>
     3 (Board_init 2 2) True
     \<lparr>keyboard = [], rands = [7, 4, 7, 4, 2, 9, 5, 5, 1, 1]\<rparr>
   = Returned ([\<lparr>column = 1, row = 0\<rparr>, \<lparr>column = 0, row = 1\<rparr>, \<lparr>column = 1, row = 1\<rparr>],
       \<lparr>width = 2, height = 2, grid = [[0, 2], [2, 2]]\<rparr>,
       \<lparr>keyboard = [], rands = [1, 1]\<rparr>) \<and>
   size_t_of_int 3 \<le> length (freeCells (Board_init 2 2))"
proof -
  have inv: "Board_inv (Board_init 2 2)" by (rule Board_init_inv)
  have less: "length (freeCells (Board_init 2 2)) < size_t_of_int 5"
    by (simp add: size_t_of_int_5 freeCells_Board_init_2_2)
  have run: "collectPositions
     \<lparr>isHuman = False, name = ''CPU'', remainingMines = 3, currentMines = [], currentGuesses = []\<rparr>
     3 (Board_init 2 2) True
     \<lparr>keyboard = [], rands = [7, 4, 7, 4, 2, 9, 5, 5, 1, 1]\<rparr>
   = Returned ([\<lparr>column = 1, row = 0\<rparr>, \<lparr>column = 0, row = 1\<rparr>, \<lparr>column = 1, row = 1\<rparr>],
       \<lparr>width = 2, height = 2, grid = [[0, 2], [2, 2]]\<rparr>,
       \<lparr>keyboard = [], rands = [1, 1]\<rparr>)"
    by code_simp
  note t = collectPositions_needs_free_cells [OF inv]
  from t [THEN conjunct1]
    t [THEN conjunct2, THEN conjunct2, THEN conjunct2, THEN conjunct1, THEN mp, OF less]
    t [THEN conjunct2, THEN conjunct2, THEN conjunct2, THEN conjunct2, THEN conjunct1, THEN mp,
       OF run]
    inv less run
  show ?thesis by simp
qed

end
